theory Spec2Isabelle
  imports Main "HOL-Library.Word"
begin

section \<open>Go values used by package httpctx\<close>

text \<open>
  \<^verbatim>\<open>time.Duration\<close> is a signed 64-bit count of nanoseconds; comparisons on it are
  signed, so the model reads a duration with \<open>sint\<close>.
\<close>

type_synonym duration = "64 word"

definition Second :: duration where
  "Second = 1000000000"

text \<open>
  An \<^verbatim>\<open>error\<close> value is either one of the sentinels the package and its tests name, some
  other error (a bind failure, say), or an error that wraps another one. A \<^verbatim>\<open>nil\<close> error
  is \<open>None\<close> of \<open>error option\<close>. \<open>errors_Is\<close> follows the standard library: it walks the
  chain of wrapped errors and compares each link with the target.
\<close>

datatype error = ErrServerClosed | DeadlineExceeded | OpError string | Wrapped string error

fun errors_Is :: "error \<Rightarrow> error \<Rightarrow> bool" where
  "errors_Is (Wrapped m e) target = (Wrapped m e = target \<or> errors_Is e target)"
| "errors_Is e target = (e = target)"

text \<open>
  The context handed to \<^verbatim>\<open>srv.Shutdown\<close>: \<^verbatim>\<open>context.Background()\<close>, which never expires,
  or a context with a deadline. Instants are nanoseconds on the clock's own axis.
\<close>

type_synonym instant = int

datatype ctx = Background | WithDeadline instant

definition WithTimeout :: "instant \<Rightarrow> duration \<Rightarrow> ctx" where
  "WithTimeout now d = WithDeadline (now + sint d)"

section \<open>The configuration and its options\<close>

text \<open>
  A hook is a Go function value: \<open>None\<close> is the \<^verbatim>\<open>nil\<close> function, \<open>Some f\<close> a closure, whose
  effect on everything outside the package is a transformer of a world \<open>'w\<close>.
\<close>

record 'w config =
  beforeShutdown :: "(duration \<Rightarrow> 'w \<Rightarrow> 'w) option"
  afterShutdown :: "(error option \<Rightarrow> 'w \<Rightarrow> 'w) option"
  shutdownTimeout :: duration

text \<open>\<^verbatim>\<open>type Option func(*config)\<close>; a \<^verbatim>\<open>nil\<close> option is \<open>None\<close>.\<close>

type_synonym 'w Option = "('w config \<Rightarrow> 'w config) option"

definition WithShutdownTimeout :: "duration \<Rightarrow> 'w Option" where
  "WithShutdownTimeout d = Some (\<lambda>c. c\<lparr>shutdownTimeout := d\<rparr>)"

definition BeforeShutdown :: "(duration \<Rightarrow> 'w \<Rightarrow> 'w) option \<Rightarrow> 'w Option" where
  "BeforeShutdown fn = Some (\<lambda>c. c\<lparr>beforeShutdown := fn\<rparr>)"

definition AfterShutdown :: "(error option \<Rightarrow> 'w \<Rightarrow> 'w) option \<Rightarrow> 'w Option" where
  "AfterShutdown fn = Some (\<lambda>c. c\<lparr>afterShutdown := fn\<rparr>)"

text \<open>
  \<^verbatim>\<open>newConfig\<close>: the literal with the defaults, then every option applied in order. Calling
  a \<^verbatim>\<open>nil\<close> option panics, which is the result \<open>None\<close>.
\<close>

definition default_config :: "'w config" where
  "default_config =
     \<lparr>beforeShutdown = Some (\<lambda>d w. w), afterShutdown = Some (\<lambda>err w. w),
      shutdownTimeout = 30 * Second\<rparr>"

fun apply_opts :: "'w Option list \<Rightarrow> 'w config \<Rightarrow> 'w config option" where
  "apply_opts [] cfg = Some cfg"
| "apply_opts (None # opts) cfg = None"
| "apply_opts (Some opt # opts) cfg = apply_opts opts (opt cfg)"

definition newConfig :: "'w Option list \<Rightarrow> 'w config option" where
  "newConfig opts = apply_opts opts default_config"

section \<open>start: two threads of control and one channel\<close>

text \<open>
  \<^verbatim>\<open>start\<close> runs \<^verbatim>\<open>runFunc\<close> on the caller's goroutine and spawns a watcher goroutine that
  waits for \<^verbatim>\<open>ctx.Done()\<close> and then drives the shutdown. The model is a labelled transition
  system: a state holds the program counter of each goroutine, the watcher's local
  \<^verbatim>\<open>timeout\<close>, whether the context has been cancelled, whether the program has panicked,
  the world the hooks act on, and the trace of what has happened so far. The collaborators
  (\<^verbatim>\<open>ctx\<close>, \<^verbatim>\<open>runFunc\<close>, \<^verbatim>\<open>srv.Shutdown\<close>, the clock) are opaque: what they return is carried
  by the label, so that a property of every label sequence is a property of every
  behaviour of the collaborators and of every interleaving.
\<close>

datatype main_pc =
    M_runFunc                      \<comment> \<open>line 88, inside \<^verbatim>\<open>runFunc()\<close>\<close>
  | M_recv                         \<comment> \<open>line 92, blocked in \<^verbatim>\<open><-errc\<close>\<close>
  | M_afterShutdown "error option" \<comment> \<open>line 93, holding \<^verbatim>\<open>err\<close>\<close>
  | M_returned "error option"      \<comment> \<open>\<^verbatim>\<open>start\<close> has returned this value\<close>

datatype watch_pc =
    W_ctxDone                      \<comment> \<open>line 75, blocked in \<^verbatim>\<open><-ctx.Done()\<close>\<close>
  | W_timeout                      \<comment> \<open>lines 77 to 82\<close>
  | W_beforeShutdown               \<comment> \<open>line 84\<close>
  | W_Shutdown                     \<comment> \<open>line 85, about to call \<^verbatim>\<open>srv.Shutdown\<close>\<close>
  | W_inShutdown                   \<comment> \<open>line 85, inside \<^verbatim>\<open>srv.Shutdown\<close>\<close>
  | W_send "error option"          \<comment> \<open>line 85, blocked in \<^verbatim>\<open>errc <- \<close>\<close>
  | W_exit                         \<comment> \<open>the goroutine has ended\<close>

datatype event =
    EvCancel                       \<comment> \<open>the context is cancelled\<close>
  | EvRunFunc "error option"       \<comment> \<open>\<^verbatim>\<open>runFunc\<close> returned\<close>
  | EvNow instant                  \<comment> \<open>the clock was read\<close>
  | EvBefore duration              \<comment> \<open>\<^verbatim>\<open>cfg.beforeShutdown\<close> was invoked\<close>
  | EvShutdown ctx                 \<comment> \<open>\<^verbatim>\<open>srv.Shutdown\<close> was called\<close>
  | EvShutdownRet "error option"   \<comment> \<open>\<^verbatim>\<open>srv.Shutdown\<close> returned\<close>
  | EvAfter "error option"         \<comment> \<open>\<^verbatim>\<open>cfg.afterShutdown\<close> was invoked\<close>
  | EvReturn "error option"        \<comment> \<open>\<^verbatim>\<open>start\<close> returned\<close>
  | EvPanic                        \<comment> \<open>a \<^verbatim>\<open>nil\<close> function was called\<close>

record 'w state =
  mpc :: main_pc
  wpc :: watch_pc
  ctx_done :: bool
  timeout :: ctx
  panicked :: bool
  world :: 'w
  trace :: "event list"

datatype label =
    Cancel                         \<comment> \<open>the caller cancels \<^verbatim>\<open>ctx\<close>\<close>
  | RunFuncReturns "error option"  \<comment> \<open>\<^verbatim>\<open>runFunc\<close> returns, lines 88 to 90\<close>
  | CtxDoneRecv                    \<comment> \<open>the watcher passes line 75\<close>
  | MakeTimeout instant            \<comment> \<open>lines 77 to 82, the clock reading given\<close>
  | CallBefore                     \<comment> \<open>line 84\<close>
  | CallShutdown                   \<comment> \<open>line 85, the call\<close>
  | ShutdownReturns "error option" \<comment> \<open>line 85, the call returns\<close>
  | Handoff                        \<comment> \<open>the send of line 85 meets the receive of line 92\<close>
  | CallAfter                      \<comment> \<open>lines 93 and 94\<close>

text \<open>The test of line 88: \<^verbatim>\<open>err != nil && !errors.Is(err, http.ErrServerClosed)\<close>.\<close>

definition run_failed :: "error option \<Rightarrow> bool" where
  "run_failed err = (case err of None \<Rightarrow> False | Some e \<Rightarrow> \<not> errors_Is e ErrServerClosed)"

text \<open>Lines 77 to 82: the context for \<^verbatim>\<open>srv.Shutdown\<close>.\<close>

definition shutdown_context :: "'w config \<Rightarrow> instant \<Rightarrow> ctx" where
  "shutdown_context cfg now =
     (if 0 <s shutdownTimeout cfg then WithTimeout now (shutdownTimeout cfg) else Background)"

definition emit :: "event list \<Rightarrow> 'w state \<Rightarrow> 'w state" where
  "emit evs s = s\<lparr>trace := trace s @ evs\<rparr>"

definition panic :: "'w state \<Rightarrow> 'w state" where
  "panic s = emit [EvPanic] (s\<lparr>panicked := True\<rparr>)"

text \<open>
  One step. \<open>None\<close> says the label is not enabled: the goroutine it belongs to is somewhere
  else or blocked, or the program has panicked (a panic in any goroutine ends the program).
  The channel \<^verbatim>\<open>errc\<close> is unbuffered: the send and the receive happen together, and when
  \<^verbatim>\<open>start\<close> has returned early nobody receives, so the watcher stays blocked in its send.
  Cancelling a context twice does nothing the second time. The deferred \<^verbatim>\<open>cancel()\<close> of
  line 81 runs when the watcher ends and releases the timer only. A hook that is not
  \<^verbatim>\<open>nil\<close> is taken to return.
\<close>

fun step :: "'w config \<Rightarrow> label \<Rightarrow> 'w state \<Rightarrow> 'w state option" where
  "step cfg Cancel s =
     (if panicked s then None
      else if ctx_done s then Some s
      else Some (emit [EvCancel] (s\<lparr>ctx_done := True\<rparr>)))"
| "step cfg (RunFuncReturns err) s =
     (if panicked s \<or> mpc s \<noteq> M_runFunc then None
      else if run_failed err
        then Some (emit [EvRunFunc err, EvReturn err] (s\<lparr>mpc := M_returned err\<rparr>))
        else Some (emit [EvRunFunc err] (s\<lparr>mpc := M_recv\<rparr>)))"
| "step cfg CtxDoneRecv s =
     (if panicked s \<or> wpc s \<noteq> W_ctxDone \<or> \<not> ctx_done s then None
      else Some (s\<lparr>wpc := W_timeout, timeout := Background\<rparr>))"
| "step cfg (MakeTimeout now) s =
     (if panicked s \<or> wpc s \<noteq> W_timeout then None
      else Some (emit (if 0 <s shutdownTimeout cfg then [EvNow now] else [])
             (s\<lparr>wpc := W_beforeShutdown, timeout := shutdown_context cfg now\<rparr>)))"
| "step cfg CallBefore s =
     (if panicked s \<or> wpc s \<noteq> W_beforeShutdown then None
      else case beforeShutdown cfg of
        None \<Rightarrow> Some (panic s)
      | Some f \<Rightarrow> Some (emit [EvBefore (shutdownTimeout cfg)]
                 (s\<lparr>wpc := W_Shutdown, world := f (shutdownTimeout cfg) (world s)\<rparr>)))"
| "step cfg CallShutdown s =
     (if panicked s \<or> wpc s \<noteq> W_Shutdown then None
      else Some (emit [EvShutdown (timeout s)] (s\<lparr>wpc := W_inShutdown\<rparr>)))"
| "step cfg (ShutdownReturns err) s =
     (if panicked s \<or> wpc s \<noteq> W_inShutdown then None
      else Some (emit [EvShutdownRet err] (s\<lparr>wpc := W_send err\<rparr>)))"
| "step cfg Handoff s =
     (if panicked s \<or> mpc s \<noteq> M_recv then None
      else case wpc s of
        W_send err \<Rightarrow> Some (s\<lparr>mpc := M_afterShutdown err, wpc := W_exit\<rparr>)
      | _ \<Rightarrow> None)"
| "step cfg CallAfter s =
     (if panicked s then None
      else case mpc s of
        M_afterShutdown err \<Rightarrow>
          (case afterShutdown cfg of
             None \<Rightarrow> Some (panic s)
           | Some f \<Rightarrow> Some (emit [EvAfter err, EvReturn err]
                      (s\<lparr>mpc := M_returned err, world := f err (world s)\<rparr>)))
      | _ \<Rightarrow> None)"

fun steps :: "'w config \<Rightarrow> label list \<Rightarrow> 'w state \<Rightarrow> 'w state option" where
  "steps cfg [] s = Some s"
| "steps cfg (l # ls) s = (case step cfg l s of None \<Rightarrow> None | Some s' \<Rightarrow> steps cfg ls s')"

text \<open>
  The state in which \<^verbatim>\<open>start\<close> has made the channel and spawned the watcher, and a run: the
  labels taken from there. \<^verbatim>\<open>ListenAndServe\<close>, \<^verbatim>\<open>ListenAndServeTLS\<close>, \<^verbatim>\<open>Serve\<close> and
  \<^verbatim>\<open>ServeTLS\<close> all call \<^verbatim>\<open>start\<close> with the configuration \<^verbatim>\<open>newConfig(opts...)\<close> and differ
  in \<^verbatim>\<open>runFunc\<close> only, so a run of any of them is a run of \<^verbatim>\<open>start\<close>.
\<close>

definition init :: "'w \<Rightarrow> 'w state" where
  "init w = \<lparr>mpc = M_runFunc, wpc = W_ctxDone, ctx_done = False, timeout = Background,
            panicked = False, world = w, trace = []\<rparr>"

definition run :: "'w config \<Rightarrow> label list \<Rightarrow> 'w \<Rightarrow> 'w state option" where
  "run cfg ls w = steps cfg ls (init w)"

section \<open>Reading a trace\<close>

text \<open>
  Which events of a trace a property looks at. A filter keeps the order of the events, so
  an equation between a filtered trace and a list says how often each event of the kind
  occurs, with which value, and in which order.
\<close>

fun is_cancel :: "event \<Rightarrow> bool" where
  "is_cancel EvCancel = True"
| "is_cancel _ = False"

fun is_runfunc :: "event \<Rightarrow> bool" where
  "is_runfunc (EvRunFunc r) = True"
| "is_runfunc _ = False"

fun is_now :: "event \<Rightarrow> bool" where
  "is_now (EvNow t) = True"
| "is_now _ = False"

fun is_before :: "event \<Rightarrow> bool" where
  "is_before (EvBefore d) = True"
| "is_before _ = False"

fun is_shutdown :: "event \<Rightarrow> bool" where
  "is_shutdown (EvShutdown c) = True"
| "is_shutdown _ = False"

fun is_shutdown_ret :: "event \<Rightarrow> bool" where
  "is_shutdown_ret (EvShutdownRet e) = True"
| "is_shutdown_ret _ = False"

fun is_after :: "event \<Rightarrow> bool" where
  "is_after (EvAfter e) = True"
| "is_after _ = False"

fun is_return :: "event \<Rightarrow> bool" where
  "is_return (EvReturn e) = True"
| "is_return _ = False"

fun is_panic :: "event \<Rightarrow> bool" where
  "is_panic EvPanic = True"
| "is_panic _ = False"

definition cancel_or_shutdown :: "event \<Rightarrow> bool" where
  "cancel_or_shutdown e = (is_cancel e \<or> is_shutdown e)"

definition before_or_shutdown :: "event \<Rightarrow> bool" where
  "before_or_shutdown e = (is_before e \<or> is_shutdown e)"

definition shutdown_ret_or_after :: "event \<Rightarrow> bool" where
  "shutdown_ret_or_after e = (is_shutdown_ret e \<or> is_after e)"

definition after_or_return :: "event \<Rightarrow> bool" where
  "after_or_return e = (is_after e \<or> is_return e)"

text \<open>What the watcher does up to the call of \<^verbatim>\<open>srv.Shutdown\<close>, with the cancellation.\<close>

definition watcher_lead :: "event \<Rightarrow> bool" where
  "watcher_lead e = (is_cancel e \<or> is_now e \<or> is_before e \<or> is_shutdown e)"

text \<open>The events of the shutdown side, and those of the goroutine that called \<^verbatim>\<open>start\<close>.\<close>

definition is_chain :: "event \<Rightarrow> bool" where
  "is_chain e = (is_cancel e \<or> is_before e \<or> is_shutdown e \<or> is_shutdown_ret e \<or> is_after e)"

definition is_main :: "event \<Rightarrow> bool" where
  "is_main e = (is_runfunc e \<or> is_after e \<or> is_return e)"

definition after_calls :: "'w state \<Rightarrow> nat" where
  "after_calls s = length (filter is_after (trace s))"

definition shutdown_calls :: "'w state \<Rightarrow> event list" where
  "shutdown_calls s = filter is_shutdown (trace s)"

text \<open>What a hook does to the world when called; the \<^verbatim>\<open>nil\<close> hook is never run.\<close>

definition apply_hook :: "('a \<Rightarrow> 'w \<Rightarrow> 'w) option \<Rightarrow> 'a \<Rightarrow> 'w \<Rightarrow> 'w" where
  "apply_hook h x w = (case h of None \<Rightarrow> w | Some f \<Rightarrow> f x w)"

section \<open>The invariant of start\<close>

text \<open>
  The program counters determine the trace up to interleaving: the shutdown side of the
  trace is a function of the state, the caller's side is fixed up to the value
  \<^verbatim>\<open>runFunc\<close> returned, and so are the clock readings, the panics and the world.
\<close>

fun past_before :: "watch_pc \<Rightarrow> bool" where
  "past_before W_ctxDone = False"
| "past_before W_timeout = False"
| "past_before W_beforeShutdown = False"
| "past_before _ = True"

fun past_timeout :: "watch_pc \<Rightarrow> bool" where
  "past_timeout W_ctxDone = False"
| "past_timeout W_timeout = False"
| "past_timeout _ = True"

fun chain_of :: "duration \<Rightarrow> ctx \<Rightarrow> bool \<Rightarrow> watch_pc \<Rightarrow> main_pc \<Rightarrow> event list" where
  "chain_of d t c W_ctxDone m = (if c then [EvCancel] else [])"
| "chain_of d t c W_timeout m = [EvCancel]"
| "chain_of d t c W_beforeShutdown m = [EvCancel]"
| "chain_of d t c W_Shutdown m = [EvCancel, EvBefore d]"
| "chain_of d t c W_inShutdown m = [EvCancel, EvBefore d, EvShutdown t]"
| "chain_of d t c (W_send e) m = [EvCancel, EvBefore d, EvShutdown t, EvShutdownRet e]"
| "chain_of d t c W_exit (M_afterShutdown e) =
     [EvCancel, EvBefore d, EvShutdown t, EvShutdownRet e]"
| "chain_of d t c W_exit (M_returned e) =
     [EvCancel, EvBefore d, EvShutdown t, EvShutdownRet e, EvAfter e]"
| "chain_of d t c W_exit m = []"

definition chain :: "'w config \<Rightarrow> 'w state \<Rightarrow> event list" where
  "chain cfg s = chain_of (shutdownTimeout cfg) (timeout s) (ctx_done s) (wpc s) (mpc s)"

fun main_pcs :: "main_pc \<Rightarrow> bool \<Rightarrow> bool" where
  "main_pcs M_runFunc exited = (\<not> exited)"
| "main_pcs M_recv exited = (\<not> exited)"
| "main_pcs (M_afterShutdown e) exited = exited"
| "main_pcs (M_returned v) exited = (exited \<or> run_failed v)"

definition pcs_ok :: "'w state \<Rightarrow> bool" where
  "pcs_ok s = ((wpc s = W_ctxDone \<or> ctx_done s) \<and> main_pcs (mpc s) (wpc s = W_exit))"

fun main_of :: "main_pc \<Rightarrow> bool \<Rightarrow> event list \<Rightarrow> bool" where
  "main_of M_runFunc exited m = (m = [])"
| "main_of M_recv exited m = (\<exists>r. \<not> run_failed r \<and> m = [EvRunFunc r])"
| "main_of (M_afterShutdown e) exited m = (\<exists>r. \<not> run_failed r \<and> m = [EvRunFunc r])"
| "main_of (M_returned v) exited m =
     (if exited then (\<exists>r. \<not> run_failed r \<and> m = [EvRunFunc r, EvAfter v, EvReturn v])
      else m = [EvRunFunc v, EvReturn v])"

definition main_tr :: "'w state \<Rightarrow> bool" where
  "main_tr s = main_of (mpc s) (wpc s = W_exit) (filter is_main (trace s))"

definition now_ok :: "'w config \<Rightarrow> 'w state \<Rightarrow> bool" where
  "now_ok cfg s =
     (if past_timeout (wpc s)
      then (\<exists>now. timeout s = shutdown_context cfg now \<and>
              filter is_now (trace s) = (if 0 <s shutdownTimeout cfg then [EvNow now] else []))
      else filter is_now (trace s) = [])"

fun at_after :: "main_pc \<Rightarrow> bool" where
  "at_after (M_afterShutdown e) = True"
| "at_after _ = False"

fun has_returned :: "main_pc \<Rightarrow> bool" where
  "has_returned (M_returned v) = True"
| "has_returned _ = False"

definition panic_ok :: "'w config \<Rightarrow> 'w state \<Rightarrow> bool" where
  "panic_ok cfg s =
     (filter is_panic (trace s) = (if panicked s then [EvPanic] else []) \<and>
      (panicked s \<longrightarrow> (wpc s = W_beforeShutdown \<and> beforeShutdown cfg = None) \<or>
                      (at_after (mpc s) \<and> afterShutdown cfg = None)) \<and>
      (past_before (wpc s) \<longrightarrow> beforeShutdown cfg \<noteq> None) \<and>
      (has_returned (mpc s) \<and> wpc s = W_exit \<longrightarrow> afterShutdown cfg \<noteq> None))"

fun after_world :: "'w config \<Rightarrow> main_pc \<Rightarrow> bool \<Rightarrow> 'w \<Rightarrow> 'w" where
  "after_world cfg (M_returned v) True w = apply_hook (afterShutdown cfg) v w"
| "after_world cfg m exited w = w"

definition world_ok :: "'w config \<Rightarrow> 'w \<Rightarrow> 'w state \<Rightarrow> bool" where
  "world_ok cfg w s =
     (world s = after_world cfg (mpc s) (wpc s = W_exit)
        (if past_before (wpc s)
         then apply_hook (beforeShutdown cfg) (shutdownTimeout cfg) w else w))"

definition start_inv :: "'w config \<Rightarrow> 'w \<Rightarrow> 'w state \<Rightarrow> bool" where
  "start_inv cfg w s =
     (pcs_ok s \<and> filter is_chain (trace s) = chain cfg s \<and> main_tr s \<and> now_ok cfg s \<and>
      panic_ok cfg s \<and> world_ok cfg w s)"

text \<open>
  The order of the watcher's events: the cancellation, then the clock reading, then the
  before hook, then the call of \<^verbatim>\<open>srv.Shutdown\<close>.
\<close>

definition order_ok :: "'w state \<Rightarrow> bool" where
  "order_ok s =
     (filter watcher_lead (trace s) =
        filter is_cancel (trace s) @ filter is_now (trace s) @ filter is_before (trace s) @
        filter is_shutdown (trace s))"

section \<open>Example runs\<close>

text \<open>
  Concrete configurations, runs and the states they end in: a configuration whose hooks
  count their calls in the world (the before hook adds 1, the after hook 10), one with a
  negative timeout, and the default configuration with one hook replaced by \<^verbatim>\<open>nil\<close>.
\<close>

definition cfg_count :: "nat config" where
  "cfg_count = \<lparr>beforeShutdown = Some (\<lambda>d n. n + 1), afterShutdown = Some (\<lambda>err n. n + 10),
                shutdownTimeout = 5 * Second\<rparr>"

definition bind_failure :: error where
  "bind_failure = OpError ''bind: address already in use''"

definition run_early :: "label list" where
  "run_early = [RunFuncReturns (Some bind_failure)]"

definition run_shutdown :: "label list" where
  "run_shutdown = [Cancel, CtxDoneRecv, MakeTimeout 100, CallBefore, CallShutdown,
     RunFuncReturns (Some ErrServerClosed), ShutdownReturns None, Handoff, CallAfter]"

definition state_shutdown :: "nat state" where
  "state_shutdown = \<lparr>mpc = M_returned None, wpc = W_exit, ctx_done = True,
     timeout = WithDeadline 5000000100, panicked = False, world = 11,
     trace = [EvCancel, EvNow 100, EvBefore (5 * Second), EvShutdown (WithDeadline 5000000100),
              EvRunFunc (Some ErrServerClosed), EvShutdownRet None, EvAfter None,
              EvReturn None]\<rparr>"

definition state_early :: "nat state" where
  "state_early = \<lparr>mpc = M_returned (Some bind_failure), wpc = W_ctxDone,
       ctx_done = False, timeout = Background, panicked = False, world = 0,
       trace = [EvRunFunc (Some bind_failure), EvReturn (Some bind_failure)]\<rparr>"

definition cfg_negative :: "nat config" where
  "cfg_negative = \<lparr>beforeShutdown = Some (\<lambda>d n. n + 1), afterShutdown = Some (\<lambda>err n. n + 10),
                   shutdownTimeout = - 1\<rparr>"

definition run_to_shutdown :: "label list" where
  "run_to_shutdown = [Cancel, CtxDoneRecv, MakeTimeout 100, CallBefore, CallShutdown]"

definition state_negative :: "nat state" where
  "state_negative = \<lparr>mpc = M_runFunc, wpc = W_inShutdown, ctx_done = True,
     timeout = Background, panicked = False, world = 1,
     trace = [EvCancel, EvBefore (- 1), EvShutdown Background]\<rparr>"

definition state_to_shutdown :: "nat state" where
  "state_to_shutdown = \<lparr>mpc = M_runFunc, wpc = W_inShutdown, ctx_done = True,
     timeout = WithDeadline 5000000100, panicked = False, world = 1,
     trace = [EvCancel, EvNow 100, EvBefore (5 * Second), EvShutdown (WithDeadline 5000000100)]\<rparr>"

definition run_to_send :: "label list" where
  "run_to_send = [Cancel, CtxDoneRecv, MakeTimeout 100, CallBefore, CallShutdown,
     RunFuncReturns (Some ErrServerClosed), ShutdownReturns None]"

definition state_sent :: "nat state" where
  "state_sent = \<lparr>mpc = M_recv, wpc = W_send None, ctx_done = True,
     timeout = WithDeadline 5000000100, panicked = False, world = 1,
     trace = [EvCancel, EvNow 100, EvBefore (5 * Second), EvShutdown (WithDeadline 5000000100),
              EvRunFunc (Some ErrServerClosed), EvShutdownRet None]\<rparr>"

definition state_waiting :: "nat state" where
  "state_waiting = \<lparr>mpc = M_recv, wpc = W_ctxDone, ctx_done = False,
     timeout = Background, panicked = False, world = 0, trace = [EvRunFunc None]\<rparr>"

definition state_cancelled :: "nat state" where
  "state_cancelled = \<lparr>mpc = M_runFunc, wpc = W_ctxDone, ctx_done = True,
     timeout = Background, panicked = False, world = 0, trace = [EvCancel]\<rparr>"

definition run_to_before :: "label list" where
  "run_to_before = [Cancel, CtxDoneRecv, MakeTimeout 100]"

definition run_to_after :: "label list" where
  "run_to_after = [Cancel, CtxDoneRecv, MakeTimeout 100, CallBefore, CallShutdown,
     RunFuncReturns (Some ErrServerClosed), ShutdownReturns None, Handoff]"

definition cfg_nil_before :: "nat config" where
  "cfg_nil_before = default_config\<lparr>beforeShutdown := None\<rparr>"

definition cfg_nil_after :: "nat config" where
  "cfg_nil_after = default_config\<lparr>afterShutdown := None\<rparr>"

definition state_nil_before :: "nat state" where
  "state_nil_before = \<lparr>mpc = M_runFunc, wpc = W_beforeShutdown, ctx_done = True,
     timeout = WithDeadline 30000000100, panicked = True, world = 0,
     trace = [EvCancel, EvNow 100, EvPanic]\<rparr>"

definition state_nil_after :: "nat state" where
  "state_nil_after = \<lparr>mpc = M_afterShutdown None, wpc = W_exit, ctx_done = True,
     timeout = WithDeadline 30000000100, panicked = True, world = 0,
     trace = [EvCancel, EvNow 100, EvBefore (30 * Second), EvShutdown (WithDeadline 30000000100),
              EvRunFunc (Some ErrServerClosed), EvShutdownRet None, EvPanic]\<rparr>"

definition state_default :: "nat state" where
  "state_default = \<lparr>mpc = M_returned None, wpc = W_exit, ctx_done = True,
     timeout = WithDeadline 30000000100, panicked = False, world = 0,
     trace = [EvCancel, EvNow 100, EvBefore (30 * Second), EvShutdown (WithDeadline 30000000100),
              EvRunFunc (Some ErrServerClosed), EvShutdownRet None, EvAfter None,
              EvReturn None]\<rparr>"

section \<open>The invariant holds in every reachable state\<close>

lemmas inv_defs = start_inv_def pcs_ok_def chain_def main_tr_def now_ok_def panic_ok_def world_ok_def
  emit_def panic_def is_chain_def is_main_def

lemma inv_init: "start_inv cfg w (init w)"
  by (simp add: inv_defs init_def)

lemma inv_Cancel:
  assumes "start_inv cfg w s" and "step cfg Cancel s = Some s'"
  shows "start_inv cfg w s'"
proof (cases "ctx_done s")
  case True
  with assms show ?thesis by (simp split: if_splits)
next
  case False
  with assms(2) have s': "s' = emit [EvCancel] (s\<lparr>ctx_done := True\<rparr>)" and np: "\<not> panicked s"
    by (simp_all split: if_splits)
  from assms(1) False have "wpc s = W_ctxDone" by (simp add: start_inv_def pcs_ok_def)
  with assms(1) False np show ?thesis unfolding s' by (simp add: inv_defs)
qed

lemma inv_RunFunc:
  assumes "start_inv cfg w s" and "step cfg (RunFuncReturns r) s = Some s'"
  shows "start_inv cfg w s'"
proof -
  from assms(2) have en: "\<not> panicked s" "mpc s = M_runFunc"
    by (simp_all split: if_splits)
  with assms(2) have s': "s' = (if run_failed r
        then emit [EvRunFunc r, EvReturn r] (s\<lparr>mpc := M_returned r\<rparr>)
        else emit [EvRunFunc r] (s\<lparr>mpc := M_recv\<rparr>))"
    by (simp split: if_splits)
  from assms(1) en show ?thesis unfolding s'
    by (cases "wpc s"; cases "run_failed r"; simp add: inv_defs)
qed

lemma inv_CtxDoneRecv:
  assumes "start_inv cfg w s" and "step cfg CtxDoneRecv s = Some s'"
  shows "start_inv cfg w s'"
proof -
  from assms(2) have en: "\<not> panicked s" "wpc s = W_ctxDone" "ctx_done s"
    by (simp_all split: if_splits)
  with assms(2) have s': "s' = s\<lparr>wpc := W_timeout, timeout := Background\<rparr>"
    by simp
  from assms(1) en show ?thesis unfolding s'
    by (cases "mpc s"; simp add: inv_defs)
qed

lemma inv_MakeTimeout:
  assumes "start_inv cfg w s" and "step cfg (MakeTimeout now) s = Some s'"
  shows "start_inv cfg w s'"
proof -
  from assms(2) have en: "\<not> panicked s" "wpc s = W_timeout"
    by (simp_all split: if_splits)
  with assms(2) have s': "s' = emit (if 0 <s shutdownTimeout cfg then [EvNow now] else [])
             (s\<lparr>wpc := W_beforeShutdown, timeout := shutdown_context cfg now\<rparr>)"
    by simp
  from assms(1) en show ?thesis unfolding s'
    by (cases "mpc s"; auto simp: inv_defs)
qed

lemma inv_CallBefore:
  assumes "start_inv cfg w s" and "step cfg CallBefore s = Some s'"
  shows "start_inv cfg w s'"
proof -
  from assms(2) have en: "\<not> panicked s" "wpc s = W_beforeShutdown"
    by (simp_all split: if_splits)
  show ?thesis
  proof (cases "beforeShutdown cfg")
    case None
    with assms(2) en have s': "s' = panic s" by simp
    from assms(1) en None show ?thesis unfolding s'
      by (cases "mpc s"; simp add: inv_defs)
  next
    case (Some f)
    with assms(2) en have s': "s' = emit [EvBefore (shutdownTimeout cfg)]
                 (s\<lparr>wpc := W_Shutdown, world := f (shutdownTimeout cfg) (world s)\<rparr>)" by simp
    from assms(1) en Some show ?thesis unfolding s'
      by (cases "mpc s"; simp add: inv_defs apply_hook_def)
  qed
qed

lemma inv_CallShutdown:
  assumes "start_inv cfg w s" and "step cfg CallShutdown s = Some s'"
  shows "start_inv cfg w s'"
proof -
  from assms(2) have en: "\<not> panicked s" "wpc s = W_Shutdown"
    by (simp_all split: if_splits)
  with assms(2) have s': "s' = emit [EvShutdown (timeout s)] (s\<lparr>wpc := W_inShutdown\<rparr>)"
    by simp
  from assms(1) en show ?thesis unfolding s'
    by (cases "mpc s"; simp add: inv_defs)
qed

lemma inv_ShutdownReturns:
  assumes "start_inv cfg w s" and "step cfg (ShutdownReturns e) s = Some s'"
  shows "start_inv cfg w s'"
proof -
  from assms(2) have en: "\<not> panicked s" "wpc s = W_inShutdown"
    by (simp_all split: if_splits)
  with assms(2) have s': "s' = emit [EvShutdownRet e] (s\<lparr>wpc := W_send e\<rparr>)"
    by simp
  from assms(1) en show ?thesis unfolding s'
    by (cases "mpc s"; simp add: inv_defs)
qed

lemma inv_Handoff:
  assumes "start_inv cfg w s" and "step cfg Handoff s = Some s'"
  shows "start_inv cfg w s'"
proof -
  from assms(2) have en: "\<not> panicked s" "mpc s = M_recv"
    by (simp_all split: if_splits)
  with assms(2) obtain e where w: "wpc s = W_send e"
    and s': "s' = s\<lparr>mpc := M_afterShutdown e, wpc := W_exit\<rparr>"
    by (cases "wpc s") simp_all
  from assms(1) en w show ?thesis unfolding s'
    by (simp add: inv_defs)
qed

lemma inv_CallAfter:
  assumes "start_inv cfg w s" and "step cfg CallAfter s = Some s'"
  shows "start_inv cfg w s'"
proof -
  from assms(2) have np: "\<not> panicked s"
    by (simp split: if_splits)
  with assms(2) obtain e where m: "mpc s = M_afterShutdown e"
    by (cases "mpc s") simp_all
  with assms(1) have x: "wpc s = W_exit" by (simp add: start_inv_def pcs_ok_def)
  show ?thesis
  proof (cases "afterShutdown cfg")
    case None
    with assms(2) np m have s': "s' = panic s" by simp
    from assms(1) np m x None show ?thesis unfolding s'
      by (simp add: inv_defs)
  next
    case (Some f)
    with assms(2) np m have s': "s' = emit [EvAfter e, EvReturn e]
                      (s\<lparr>mpc := M_returned e, world := f e (world s)\<rparr>)" by simp
    from assms(1) np m x Some show ?thesis unfolding s'
      by (simp add: inv_defs apply_hook_def)
  qed
qed

lemma inv_step:
  assumes "start_inv cfg w s" and "step cfg l s = Some s'"
  shows "start_inv cfg w s'"
proof (cases l)
  case Cancel
  from assms(1) assms(2) [unfolded Cancel] show ?thesis by (rule inv_Cancel)
next
  case (RunFuncReturns r)
  from assms(1) assms(2) [unfolded RunFuncReturns] show ?thesis by (rule inv_RunFunc)
next
  case CtxDoneRecv
  from assms(1) assms(2) [unfolded CtxDoneRecv] show ?thesis by (rule inv_CtxDoneRecv)
next
  case (MakeTimeout now)
  from assms(1) assms(2) [unfolded MakeTimeout] show ?thesis by (rule inv_MakeTimeout)
next
  case CallBefore
  from assms(1) assms(2) [unfolded CallBefore] show ?thesis by (rule inv_CallBefore)
next
  case CallShutdown
  from assms(1) assms(2) [unfolded CallShutdown] show ?thesis by (rule inv_CallShutdown)
next
  case (ShutdownReturns e)
  from assms(1) assms(2) [unfolded ShutdownReturns] show ?thesis by (rule inv_ShutdownReturns)
next
  case Handoff
  from assms(1) assms(2) [unfolded Handoff] show ?thesis by (rule inv_Handoff)
next
  case CallAfter
  from assms(1) assms(2) [unfolded CallAfter] show ?thesis by (rule inv_CallAfter)
qed

lemma inv_steps: "start_inv cfg w s \<Longrightarrow> steps cfg ls s = Some s' \<Longrightarrow> start_inv cfg w s'"
proof (induction ls arbitrary: s)
  case Nil
  then show ?case by simp
next
  case (Cons l ls)
  from Cons.prems(2) obtain s1 where 1: "step cfg l s = Some s1" and 2: "steps cfg ls s1 = Some s'"
    by (cases "step cfg l s") simp_all
  from Cons.prems(1) 1 have "start_inv cfg w s1" by (rule inv_step)
  then show ?case using 2 by (rule Cons.IH)
qed

lemma inv_run: "run cfg ls w = Some s \<Longrightarrow> start_inv cfg w s"
  unfolding run_def by (rule inv_steps [OF inv_init])

section \<open>Consequences of the invariant\<close>

lemma filter_sub: "(\<And>e. P e \<Longrightarrow> Q e) \<Longrightarrow> filter P xs = filter P (filter Q xs)"
  by (induction xs) auto

lemma in_filter: "e \<in> set xs \<Longrightarrow> P e \<Longrightarrow> e \<in> set (filter P xs)"
  by simp

lemma only_main:
  "filter is_chain tr = [] \<Longrightarrow> filter is_now tr = [] \<Longrightarrow> filter is_panic tr = [] \<Longrightarrow>
   filter is_main tr = tr"
proof (induction tr)
  case Nil
  then show ?case by simp
next
  case (Cons a tr)
  then show ?case by (cases a) (simp_all add: is_chain_def is_main_def split: if_splits)
qed

lemma inv_chain: "start_inv cfg w s \<Longrightarrow> (\<And>e. P e \<Longrightarrow> is_chain e) \<Longrightarrow>
  filter P (trace s) = filter P (chain_of (shutdownTimeout cfg) (timeout s) (ctx_done s) (wpc s) (mpc s))"
  using filter_sub [of P is_chain "trace s"] by (simp add: start_inv_def chain_def)

lemma no_cancel_idle:
  assumes "start_inv cfg w s" and "EvCancel \<notin> set (trace s)"
  shows "wpc s = W_ctxDone \<and> \<not> ctx_done s"
proof -
  have "filter is_cancel (trace s) = []" using assms(2)
    by (auto simp: filter_empty_conv elim: is_cancel.elims)
  moreover have "filter is_cancel (trace s) = filter is_cancel (chain_of (shutdownTimeout cfg) (timeout s) (ctx_done s) (wpc s) (mpc s))"
    using assms(1) by (rule inv_chain) (simp add: is_chain_def)
  ultimately have "filter is_cancel (chain_of (shutdownTimeout cfg) (timeout s) (ctx_done s) (wpc s) (mpc s)) = []" by simp
  moreover from assms(1) have "pcs_ok s" by (simp add: start_inv_def)
  ultimately show ?thesis
    by (cases "wpc s"; cases "mpc s"; simp add: pcs_ok_def split: if_splits)
qed

lemma main_cases [consumes 1, case_names running waiting received finished failed]:
  assumes "start_inv cfg w s"
  obtains
    "mpc s = M_runFunc" "wpc s \<noteq> W_exit" "filter is_main (trace s) = []"
  | r where "mpc s = M_recv" "wpc s \<noteq> W_exit" "\<not> run_failed r"
      "filter is_main (trace s) = [EvRunFunc r]"
  | r e where "mpc s = M_afterShutdown e" "wpc s = W_exit" "\<not> run_failed r"
      "filter is_main (trace s) = [EvRunFunc r]"
  | r v where "mpc s = M_returned v" "wpc s = W_exit" "\<not> run_failed r"
      "filter is_main (trace s) = [EvRunFunc r, EvAfter v, EvReturn v]"
  | v where "mpc s = M_returned v" "wpc s \<noteq> W_exit" "run_failed v"
      "filter is_main (trace s) = [EvRunFunc v, EvReturn v]"
proof -
  from assms have p: "main_pcs (mpc s) (wpc s = W_exit)"
    and m: "main_of (mpc s) (wpc s = W_exit) (filter is_main (trace s))"
    by (simp_all add: start_inv_def pcs_ok_def main_tr_def)
  show thesis
  proof (cases "mpc s")
    case M_runFunc
    with p m that(1) show ?thesis by simp
  next
    case M_recv
    with p m that(2) show ?thesis by auto
  next
    case (M_afterShutdown e)
    with p m that(3) show ?thesis by auto
  next
    case (M_returned v)
    show ?thesis
    proof (cases "wpc s = W_exit")
      case True
      with M_returned p m that(4) show ?thesis by auto
    next
      case False
      with M_returned p m that(5) show ?thesis by auto
    qed
  qed
qed

lemma runfunc_in_main: "EvRunFunc r \<in> set (trace s) \<Longrightarrow> EvRunFunc r \<in> set (filter is_main (trace s))"
  by (simp add: is_main_def)

lemma return_in_main: "EvReturn v \<in> set (trace s) \<Longrightarrow> EvReturn v \<in> set (filter is_main (trace s))"
  by (simp add: is_main_def)

lemma main_sub: "(\<And>e. P e \<Longrightarrow> is_main e) \<Longrightarrow> filter P (trace s) = filter P (filter is_main (trace s))"
  by (rule filter_sub)

lemma shutdown_ret_chain:
  "start_inv cfg w s \<Longrightarrow> filter is_shutdown_ret (trace s) =
     filter is_shutdown_ret (chain_of (shutdownTimeout cfg) (timeout s) (ctx_done s) (wpc s) (mpc s))"
  by (rule inv_chain) (simp_all add: is_chain_def)

lemma shutdown_ret_in_chain:
  "start_inv cfg w s \<Longrightarrow> EvShutdownRet v \<in> set (trace s) \<Longrightarrow>
   EvShutdownRet v \<in> set (chain_of (shutdownTimeout cfg) (timeout s) (ctx_done s) (wpc s) (mpc s))"
  using in_filter [of "EvShutdownRet v" "trace s" is_chain]
  by (simp add: start_inv_def chain_def is_chain_def)

lemma watcher_sub:
  assumes "start_inv cfg w s" and "\<And>e. P e \<Longrightarrow> is_chain e"
  shows "filter P (trace s) =
    filter P (chain_of (shutdownTimeout cfg) (timeout s) (ctx_done s) (wpc s) (mpc s))"
  using assms by (rule inv_chain)

lemma shutdown_arg:
  assumes I: "start_inv cfg w s" and c: "EvShutdown c \<in> set (trace s)"
  shows "c = timeout s \<and> past_timeout (wpc s)"
proof -
  have fs: "filter is_shutdown (trace s) = filter is_shutdown
      (chain_of (shutdownTimeout cfg) (timeout s) (ctx_done s) (wpc s) (mpc s))"
    using I by (rule watcher_sub) (simp add: is_chain_def)
  from c have "EvShutdown c \<in> set (filter is_shutdown (trace s))" by simp
  then show ?thesis unfolding fs
    by (cases "wpc s"; cases "mpc s") (auto split: if_splits)
qed

lemma steps_append:
  "steps cfg (xs @ ys) s = (case steps cfg xs s of None \<Rightarrow> None | Some s1 \<Rightarrow> steps cfg ys s1)"
  by (induction xs arbitrary: s) (simp_all split: option.splits)

lemma run_snoc:
  assumes "run cfg (ls @ [l]) w = Some s"
  obtains s1 where "start_inv cfg w s1" "step cfg l s1 = Some s"
proof -
  from assms obtain s1 where 1: "steps cfg ls (init w) = Some s1" and 2: "step cfg l s1 = Some s"
    by (auto simp: run_def steps_append split: option.splits)
  from 1 have "start_inv cfg w s1" by (simp add: inv_run run_def)
  with 2 that show thesis by blast
qed

lemma apply_opts_append:
  "apply_opts (xs @ ys) c = (case apply_opts xs c of None \<Rightarrow> None | Some c1 \<Rightarrow> apply_opts ys c1)"
  by (induction xs c rule: apply_opts.induct) simp_all

lemma can_finish:
  assumes I: "start_inv cfg w s"
    and rf: "EvRunFunc r \<in> set (trace s)" and nf: "\<not> run_failed r"
    and sr: "EvShutdownRet v \<in> set (trace s)" and h: "afterShutdown cfg = Some f"
  shows "\<exists>ls' s'. steps cfg ls' s = Some s' \<and> mpc s' = M_returned v"
proof -
  note rm = runfunc_in_main [OF rf]
  note sc = shutdown_ret_in_chain [OF I sr]
  from I h have np: "panicked s \<Longrightarrow> wpc s = W_beforeShutdown"
    by (auto simp: start_inv_def panic_ok_def)
  from I show ?thesis
  proof (cases rule: main_cases)
    case running
    with rm show ?thesis by simp
  next
    case (waiting r')
    with sc have w: "wpc s = W_send v" by (cases "wpc s") (auto split: if_splits)
    with np waiting have "\<not> panicked s" by auto
    with w waiting h have "steps cfg [Handoff, CallAfter] s =
        Some (emit [EvAfter v, EvReturn v]
          (s\<lparr>mpc := M_returned v, wpc := W_exit, world := f v (world s)\<rparr>))"
      by (simp add: emit_def)
    then show ?thesis by (intro exI conjI, assumption) (simp add: emit_def)
  next
    case (received r' e)
    with sc have e: "e = v" by simp
    from np received have "\<not> panicked s" by auto
    with e received h have "steps cfg [CallAfter] s =
        Some (emit [EvAfter v, EvReturn v] (s\<lparr>mpc := M_returned v, world := f v (world s)\<rparr>))"
      by (simp add: emit_def)
    then show ?thesis by (intro exI conjI, assumption) (simp add: emit_def)
  next
    case (finished r' v')
    with sc have "v' = v" by simp
    with finished have "steps cfg [] s = Some s \<and> mpc s = M_returned v" by simp
    then show ?thesis by blast
  next
    case (failed v')
    with rm nf show ?thesis by auto
  qed
qed

lemma can_call_before:
  assumes I: "start_inv cfg w s" and c: "EvCancel \<in> set (trace s)"
    and nb: "filter is_before (trace s) = []" and h: "beforeShutdown cfg = Some f"
  shows "\<exists>ls' s'. steps cfg ls' s = Some s' \<and>
           filter is_before (trace s') = [EvBefore (shutdownTimeout cfg)]"
proof -
  have fb: "filter is_before (trace s) = filter is_before
      (chain_of (shutdownTimeout cfg) (timeout s) (ctx_done s) (wpc s) (mpc s))"
    using I by (rule watcher_sub) (simp add: is_chain_def)
  have fc: "filter is_cancel (trace s) = filter is_cancel
      (chain_of (shutdownTimeout cfg) (timeout s) (ctx_done s) (wpc s) (mpc s))"
    using I by (rule watcher_sub) (simp add: is_chain_def)
  from c have "EvCancel \<in> set (filter is_cancel (trace s))" by simp
  with fc have cd: "wpc s = W_ctxDone \<Longrightarrow> ctx_done s" by (auto split: if_splits)
  from I h have np: "panicked s \<Longrightarrow> at_after (mpc s)" and pc: "main_pcs (mpc s) (wpc s = W_exit)"
    by (auto simp: start_inv_def panic_ok_def pcs_ok_def)
  have ex: "at_after (mpc s) \<Longrightarrow> wpc s = W_exit" using pc by (cases "mpc s") simp_all
  let ?d = "shutdownTimeout cfg"
  consider "wpc s = W_ctxDone" | "wpc s = W_timeout" | "wpc s = W_beforeShutdown"
    using nb fb pc by (cases "wpc s"; cases "mpc s") simp_all
  then show ?thesis
  proof cases
    case 1
    with np ex cd have "\<not> panicked s" "ctx_done s" by auto
    with 1 h nb have "steps cfg [CtxDoneRecv, MakeTimeout 0, CallBefore] s \<noteq> None \<and>
      filter is_before (trace (the (steps cfg [CtxDoneRecv, MakeTimeout 0, CallBefore] s))) = [EvBefore ?d]"
      by (simp add: emit_def)
    then show ?thesis by fastforce
  next
    case 2
    with np ex have "\<not> panicked s" by auto
    with 2 h nb have "steps cfg [MakeTimeout 0, CallBefore] s \<noteq> None \<and>
      filter is_before (trace (the (steps cfg [MakeTimeout 0, CallBefore] s))) = [EvBefore ?d]"
      by (simp add: emit_def)
    then show ?thesis by fastforce
  next
    case 3
    with np ex have "\<not> panicked s" by auto
    with 3 h nb have "steps cfg [CallBefore] s \<noteq> None \<and>
      filter is_before (trace (the (steps cfg [CallBefore] s))) = [EvBefore ?d]"
      by (simp add: emit_def)
    then show ?thesis by fastforce
  qed
qed

lemma can_return:
  assumes I: "start_inv cfg w s"
    and rf: "EvRunFunc r \<in> set (trace s)" and nf: "\<not> run_failed r"
    and hb: "beforeShutdown cfg = Some fb" and ha: "afterShutdown cfg = Some fa"
    and ns: "filter is_shutdown_ret (trace s) = [] \<or> EvShutdownRet v \<in> set (trace s)"
  shows "\<exists>ls' s'. steps cfg ls' s = Some s' \<and> mpc s' = M_returned v \<and> wpc s' = W_exit"
proof -
  note rm = runfunc_in_main [OF rf]
  note sr = shutdown_ret_chain [OF I]
  have sc: "EvShutdownRet v \<in> set (chain_of (shutdownTimeout cfg) (timeout s) (ctx_done s) (wpc s) (mpc s))"
    if "EvShutdownRet v \<in> set (trace s)"
    using that by (rule shutdown_ret_in_chain [OF I])
  from I hb ha have np: "\<not> panicked s" by (auto simp: start_inv_def panic_ok_def)
  from I show ?thesis
  proof (cases rule: main_cases)
    case running
    with rm show ?thesis by simp
  next
    case (waiting r')
    let ?go = "\<lambda>ls'. steps cfg ls' s \<noteq> None \<and> mpc (the (steps cfg ls' s)) = M_returned v \<and>
                 wpc (the (steps cfg ls' s)) = W_exit"
    have "\<exists>ls'. ?go ls'"
    proof (cases "wpc s")
      case W_ctxDone
      with waiting np hb ha have "?go [Cancel, CtxDoneRecv, MakeTimeout 0, CallBefore, CallShutdown,
          ShutdownReturns v, Handoff, CallAfter]"
        by (cases "ctx_done s") (simp_all add: emit_def)
      then show ?thesis by blast
    next
      case W_timeout
      with waiting np hb ha have "?go [MakeTimeout 0, CallBefore, CallShutdown,
          ShutdownReturns v, Handoff, CallAfter]"
        by (simp add: emit_def)
      then show ?thesis by blast
    next
      case W_beforeShutdown
      with waiting np hb ha have "?go [CallBefore, CallShutdown, ShutdownReturns v, Handoff, CallAfter]"
        by (simp add: emit_def)
      then show ?thesis by blast
    next
      case W_Shutdown
      with waiting np hb ha have "?go [CallShutdown, ShutdownReturns v, Handoff, CallAfter]"
        by (simp add: emit_def)
      then show ?thesis by blast
    next
      case W_inShutdown
      with waiting np hb ha have "?go [ShutdownReturns v, Handoff, CallAfter]"
        by (simp add: emit_def)
      then show ?thesis by blast
    next
      case (W_send e)
      with ns sr sc have "e = v" by auto
      with W_send waiting np hb ha have "?go [Handoff, CallAfter]"
        by (simp add: emit_def)
      then show ?thesis by blast
    next
      case W_exit
      with waiting show ?thesis by simp
    qed
    then show ?thesis by fastforce
  next
    case (received r' e)
    with ns sr sc have "e = v" by auto
    with received np ha have "steps cfg [CallAfter] s \<noteq> None \<and>
        mpc (the (steps cfg [CallAfter] s)) = M_returned v \<and>
        wpc (the (steps cfg [CallAfter] s)) = W_exit"
      by (simp add: emit_def)
    then show ?thesis by fastforce
  next
    case (finished r' v')
    with ns sr sc have "v' = v" by auto
    with finished have "steps cfg [] s = Some s \<and> mpc s = M_returned v \<and> wpc s = W_exit" by simp
    then show ?thesis by blast
  next
    case (failed v')
    with rm nf show ?thesis by auto
  qed
qed

lemma finished_views:
  assumes I: "start_inv cfg w s" and m: "mpc s = M_returned v" and x: "wpc s = W_exit"
  shows "filter is_shutdown_ret (trace s) = [EvShutdownRet v]"
    and "filter is_after (trace s) = [EvAfter v]"
    and "filter is_return (trace s) = [EvReturn v]"
    and "filter shutdown_ret_or_after (trace s) = [EvShutdownRet v, EvAfter v]"
    and "filter after_or_return (trace s) = [EvAfter v, EvReturn v]"
proof -
  have a: "filter is_after (trace s) = filter is_after (filter is_main (trace s))"
    by (rule main_sub) (simp add: is_main_def)
  have r: "filter is_return (trace s) = filter is_return (filter is_main (trace s))"
    by (rule main_sub) (simp add: is_main_def)
  have ar: "filter after_or_return (trace s) = filter after_or_return (filter is_main (trace s))"
    by (rule main_sub) (auto simp: is_main_def after_or_return_def)
  have sa: "filter shutdown_ret_or_after (trace s) = filter shutdown_ret_or_after
       (chain_of (shutdownTimeout cfg) (timeout s) (ctx_done s) (wpc s) (mpc s))"
    using I by (rule inv_chain) (auto simp: is_chain_def shutdown_ret_or_after_def)
  note sr = shutdown_ret_chain [OF I]
  from I m x have mt: "\<exists>r. filter is_main (trace s) = [EvRunFunc r, EvAfter v, EvReturn v]"
    by (cases rule: main_cases) simp_all
  from m x show "filter is_shutdown_ret (trace s) = [EvShutdownRet v]" by (simp add: sr)
  from mt show "filter is_after (trace s) = [EvAfter v]" by (auto simp: a simp del: filter_filter)
  from mt show "filter is_return (trace s) = [EvReturn v]" by (auto simp: r simp del: filter_filter)
  from m x show "filter shutdown_ret_or_after (trace s) = [EvShutdownRet v, EvAfter v]"
    by (simp add: sa shutdown_ret_or_after_def)
  from mt show "filter after_or_return (trace s) = [EvAfter v, EvReturn v]"
    by (auto simp: ar after_or_return_def simp del: filter_filter)
qed

lemma order_init: "order_ok (init w)"
  by (simp add: order_ok_def init_def)

lemma order_step:
  assumes I: "start_inv cfg w s" and o: "order_ok s" and st: "step cfg l s = Some s'"
  shows "order_ok s'"
proof -
  have fn: "past_timeout (wpc s) \<or> filter is_now (trace s) = []"
    using I by (auto simp: start_inv_def now_ok_def split: if_splits)
  have fb: "filter is_before (trace s) = filter is_before
      (chain_of (shutdownTimeout cfg) (timeout s) (ctx_done s) (wpc s) (mpc s))"
    using I by (rule watcher_sub) (simp add: is_chain_def)
  have fs: "filter is_shutdown (trace s) = filter is_shutdown
      (chain_of (shutdownTimeout cfg) (timeout s) (ctx_done s) (wpc s) (mpc s))"
    using I by (rule watcher_sub) (simp add: is_chain_def)
  from I have pc: "wpc s = W_ctxDone \<or> ctx_done s" by (simp add: start_inv_def pcs_ok_def)
  show ?thesis
  proof (cases l)
    case Cancel
    show ?thesis
    proof (cases "ctx_done s")
      case True
      with st Cancel o show ?thesis by (simp split: if_splits)
    next
      case False
      with pc have w: "wpc s = W_ctxDone" by simp
      with fn fb fs have "filter is_now (trace s) = []" "filter is_before (trace s) = []"
        "filter is_shutdown (trace s) = []" by simp_all
      with st Cancel False o show ?thesis
        by (auto simp: order_ok_def emit_def watcher_lead_def split: if_splits)
    qed
  next
    case (RunFuncReturns r)
    with st o show ?thesis
      by (auto simp: order_ok_def emit_def watcher_lead_def split: if_splits)
  next
    case CtxDoneRecv
    with st o show ?thesis
      by (auto simp: order_ok_def split: if_splits)
  next
    case (MakeTimeout now)
    with st have w: "wpc s = W_timeout" by (simp split: if_splits)
    with fb fs have "filter is_before (trace s) = []" "filter is_shutdown (trace s) = []"
      by simp_all
    with st MakeTimeout o show ?thesis
      by (auto simp: order_ok_def emit_def watcher_lead_def split: if_splits)
  next
    case CallBefore
    with st have w: "wpc s = W_beforeShutdown" by (simp split: if_splits)
    with fs have "filter is_shutdown (trace s) = []" by simp
    with st CallBefore o show ?thesis
      by (auto simp: order_ok_def emit_def panic_def watcher_lead_def
          split: if_splits option.splits)
  next
    case CallShutdown
    with st o show ?thesis
      by (auto simp: order_ok_def emit_def watcher_lead_def split: if_splits)
  next
    case (ShutdownReturns e)
    with st o show ?thesis
      by (auto simp: order_ok_def emit_def watcher_lead_def split: if_splits)
  next
    case Handoff
    with st o show ?thesis
      by (auto simp: order_ok_def split: if_splits watch_pc.splits)
  next
    case CallAfter
    with st o show ?thesis
      by (auto simp: order_ok_def emit_def panic_def watcher_lead_def
          split: if_splits option.splits main_pc.splits)
  qed
qed

lemma order_steps:
  "start_inv cfg w s \<Longrightarrow> order_ok s \<Longrightarrow> steps cfg ls s = Some s' \<Longrightarrow> order_ok s'"
proof (induction ls arbitrary: s)
  case Nil
  then show ?case by simp
next
  case (Cons l ls)
  from Cons.prems(3) obtain s1 where 1: "step cfg l s = Some s1" and 2: "steps cfg ls s1 = Some s'"
    by (cases "step cfg l s") simp_all
  from Cons.prems(1) 1 have i: "start_inv cfg w s1" by (rule inv_step)
  from Cons.prems(1,2) 1 have "order_ok s1" by (rule order_step)
  with i show ?case using 2 by (rule Cons.IH)
qed

lemma order_run: "run cfg ls w = Some s \<Longrightarrow> order_ok s"
  unfolding run_def by (rule order_steps [OF inv_init order_init])

section \<open>The example runs, evaluated\<close>

lemmas eval_defs = run_def init_def emit_def panic_def run_failed_def shutdown_context_def
  WithTimeout_def Second_def word_sless_alt

lemma run_early_result: "run cfg_count run_early 0 = Some state_early"
  by (simp add: eval_defs cfg_count_def run_early_def state_early_def bind_failure_def)

lemma run_shutdown_result: "run cfg_count run_shutdown 0 = Some state_shutdown"
  by (simp add: eval_defs cfg_count_def run_shutdown_def state_shutdown_def)

lemma run_to_send_result: "run cfg_count run_to_send 0 = Some state_sent"
  by (simp add: eval_defs cfg_count_def run_to_send_def state_sent_def)

lemma run_waiting_result: "run cfg_count [RunFuncReturns None] 0 = Some state_waiting"
  by (simp add: eval_defs state_waiting_def)

lemma run_cancelled_result: "run cfg_count [Cancel] 0 = Some state_cancelled"
  by (simp add: eval_defs state_cancelled_def)

lemma run_to_shutdown_result: "run cfg_count run_to_shutdown 0 = Some state_to_shutdown"
  by (simp add: eval_defs cfg_count_def run_to_shutdown_def state_to_shutdown_def)

lemma run_negative_result: "run cfg_negative run_to_shutdown 0 = Some state_negative"
  by (simp add: eval_defs cfg_negative_def run_to_shutdown_def state_negative_def)

lemma run_default_result: "run default_config run_shutdown 0 = Some state_default"
  by (simp add: eval_defs default_config_def run_shutdown_def state_default_def)

lemma run_nil_before_result:
  "run cfg_nil_before (run_to_before @ [CallBefore]) 0 = Some state_nil_before"
  by (simp add: eval_defs default_config_def cfg_nil_before_def run_to_before_def
      state_nil_before_def)

lemma run_nil_after_result:
  "run cfg_nil_after (run_to_after @ [CallAfter]) 0 = Some state_nil_after"
  by (simp add: eval_defs default_config_def cfg_nil_after_def run_to_after_def
      state_nil_after_def)

lemma newConfig_nil_before: "newConfig [BeforeShutdown None] = Some cfg_nil_before"
  by (simp add: newConfig_def BeforeShutdown_def cfg_nil_before_def)

lemma newConfig_nil_after: "newConfig [AfterShutdown None] = Some cfg_nil_after"
  by (simp add: newConfig_def AfterShutdown_def cfg_nil_after_def)

section \<open>The claims\<close>

text \<open>
  C1. In a run in which the context is never cancelled and \<^verbatim>\<open>runFunc\<close> returns a non-nil
  error that does not match \<^verbatim>\<open>http.ErrServerClosed\<close>, \<^verbatim>\<open>start\<close> has returned exactly that
  error; the whole run consists of \<^verbatim>\<open>runFunc\<close> returning and \<^verbatim>\<open>start\<close> returning, so the
  after-shutdown hook is never invoked and no hook has touched the world.
\<close>

theorem early_failure_returns:
  assumes "run cfg ls w = Some s"
    and "EvCancel \<notin> set (trace s)"
    and "EvRunFunc (Some e) \<in> set (trace s)"
    and "\<not> errors_Is e ErrServerClosed"
  shows "mpc s = M_returned (Some e) \<and> trace s = [EvRunFunc (Some e), EvReturn (Some e)] \<and>
         filter is_after (trace s) = [] \<and> world s = w"
proof -
  from assms(1) have I: "start_inv cfg w s" by (rule inv_run)
  from no_cancel_idle [OF I assms(2)] have idle: "wpc s = W_ctxDone" "\<not> ctx_done s"
    by simp_all
  from I idle have np: "\<not> panicked s"
    by (cases "mpc s"; simp add: start_inv_def pcs_ok_def panic_ok_def)
  from I idle np have parts: "filter is_chain (trace s) = []" "filter is_now (trace s) = []"
    "filter is_panic (trace s) = []"
    by (simp_all add: start_inv_def chain_def now_ok_def panic_ok_def)
  then have all: "filter is_main (trace s) = trace s" by (rule only_main)
  from I idle have m: "main_of (mpc s) False (trace s)"
    by (simp add: start_inv_def main_tr_def all)
  from assms(4) have rf: "run_failed (Some e)" by (simp add: run_failed_def)
  from m assms(3) rf have ret: "mpc s = M_returned (Some e)"
    and tr: "trace s = [EvRunFunc (Some e), EvReturn (Some e)]"
    by (cases "mpc s"; auto)+
  from I idle ret have "world s = w" by (simp add: start_inv_def world_ok_def)
  with ret tr show ?thesis by simp
qed

theorem early_failure_returns_witness:
  "run cfg_count run_early 0 = Some state_early \<and>
   EvCancel \<notin> set (trace state_early) \<and>
   EvRunFunc (Some bind_failure) \<in> set (trace state_early) \<and>
   \<not> errors_Is bind_failure ErrServerClosed \<and>
   mpc state_early = M_returned (Some bind_failure) \<and>
   filter is_after (trace state_early) = [] \<and> world state_early = 0"
  using early_failure_returns [of cfg_count run_early 0 state_early bind_failure]
  by (simp add: run_early_result) (simp add: state_early_def bind_failure_def)

text \<open>
  C2. When \<^verbatim>\<open>runFunc\<close> returns \<^verbatim>\<open>nil\<close> or an error matching \<^verbatim>\<open>http.ErrServerClosed\<close>, that
  value is not what \<^verbatim>\<open>start\<close> returns: whatever \<^verbatim>\<open>start\<close> returns is the one value that
  \<^verbatim>\<open>srv.Shutdown\<close> returned; as long as \<^verbatim>\<open>srv.Shutdown\<close> has not returned, \<^verbatim>\<open>start\<close> has
  not returned either and is blocked in the receive of line 92; and \<^verbatim>\<open>start\<close> does go on to
  return the shutdown result: with hooks that are not \<^verbatim>\<open>nil\<close>, from every such state and for
  every value \<open>v\<close> that \<^verbatim>\<open>srv.Shutdown\<close> may return (the value it has returned, if it has)
  the run continues, through the cancellation, the hook and the call of line 85, to the
  state in which \<^verbatim>\<open>start\<close> has returned \<open>v\<close>.
\<close>

theorem closed_sentinel_suppressed:
  assumes "run cfg ls w = Some s"
    and "EvRunFunc r \<in> set (trace s)"
    and "r = None \<or> (\<exists>e. r = Some e \<and> errors_Is e ErrServerClosed)"
  shows "(\<forall>v. EvReturn v \<in> set (trace s) \<longrightarrow>
            mpc s = M_returned v \<and> filter is_return (trace s) = [EvReturn v] \<and>
            filter is_shutdown_ret (trace s) = [EvShutdownRet v]) \<and>
         (filter is_shutdown_ret (trace s) = [] \<longrightarrow>
            mpc s = M_recv \<and> filter is_return (trace s) = []) \<and>
         (beforeShutdown cfg \<noteq> None \<and> afterShutdown cfg \<noteq> None \<longrightarrow>
            (\<forall>v. filter is_shutdown_ret (trace s) = [] \<or> EvShutdownRet v \<in> set (trace s) \<longrightarrow>
               (\<exists>ls' s'. steps cfg ls' s = Some s' \<and> mpc s' = M_returned v \<and>
                  filter is_return (trace s') = [EvReturn v] \<and>
                  filter is_shutdown_ret (trace s') = [EvShutdownRet v])))"
proof -
  from assms(1) have I: "start_inv cfg w s" by (rule inv_run)
  from assms(3) have nf: "\<not> run_failed r" by (auto simp: run_failed_def)
  note rf = runfunc_in_main [OF assms(2)]
  have ret: "filter is_return (trace s) = filter is_return (filter is_main (trace s))"
    by (rule main_sub) (simp add: is_main_def)
  note sr = shutdown_ret_chain [OF I]
  have mem: "\<And>v. EvReturn v \<in> set (trace s) \<Longrightarrow> EvReturn v \<in> set (filter is_main (trace s))"
    by (rule return_in_main)
  have safe: "(\<forall>v. EvReturn v \<in> set (trace s) \<longrightarrow>
            mpc s = M_returned v \<and> filter is_return (trace s) = [EvReturn v] \<and>
            filter is_shutdown_ret (trace s) = [EvShutdownRet v]) \<and>
         (filter is_shutdown_ret (trace s) = [] \<longrightarrow>
            mpc s = M_recv \<and> filter is_return (trace s) = [])"
    using I
  proof (cases rule: main_cases)
    case running
    with rf show ?thesis by simp
  next
    case (waiting r')
    with rf ret sr mem show ?thesis by (cases "wpc s") auto
  next
    case (received r' e)
    with rf ret sr mem show ?thesis by auto
  next
    case (finished r' v)
    with rf ret sr mem show ?thesis by auto
  next
    case (failed v)
    with rf nf show ?thesis by auto
  qed
  have live: "\<exists>ls' s'. steps cfg ls' s = Some s' \<and> mpc s' = M_returned v \<and>
                  filter is_return (trace s') = [EvReturn v] \<and>
                  filter is_shutdown_ret (trace s') = [EvShutdownRet v]"
    if h: "beforeShutdown cfg \<noteq> None" "afterShutdown cfg \<noteq> None"
      and ns: "filter is_shutdown_ret (trace s) = [] \<or> EvShutdownRet v \<in> set (trace s)" for v
  proof -
    from h obtain fb fa where "beforeShutdown cfg = Some fb" "afterShutdown cfg = Some fa"
      by auto
    from can_return [OF I assms(2) nf this ns]
    obtain ls' s' where st: "steps cfg ls' s = Some s'" and m: "mpc s' = M_returned v"
      and x: "wpc s' = W_exit" by blast
    from I st have I': "start_inv cfg w s'" by (rule inv_steps)
    from finished_views(1,3) [OF I' m x] st m show ?thesis by blast
  qed
  from safe live show ?thesis by blast
qed

theorem closed_sentinel_suppressed_witness:
  "run cfg_count run_shutdown 0 = Some state_shutdown \<and>
   EvRunFunc (Some ErrServerClosed) \<in> set (trace state_shutdown) \<and>
   errors_Is ErrServerClosed ErrServerClosed \<and>
   EvReturn None \<in> set (trace state_shutdown) \<and>
   mpc state_shutdown = M_returned None \<and>
   filter is_return (trace state_shutdown) = [EvReturn None] \<and>
   filter is_shutdown_ret (trace state_shutdown) = [EvShutdownRet None] \<and>
   run cfg_count [RunFuncReturns None] 0 = Some state_waiting \<and>
   EvRunFunc None \<in> set (trace state_waiting) \<and>
   beforeShutdown cfg_count \<noteq> None \<and> afterShutdown cfg_count \<noteq> None \<and>
   filter is_shutdown_ret (trace state_waiting) = [] \<and>
   mpc state_waiting = M_recv \<and>
   (\<exists>ls' s'. steps cfg_count ls' state_waiting = Some s' \<and>
      mpc s' = M_returned (Some DeadlineExceeded) \<and>
      filter is_return (trace s') = [EvReturn (Some DeadlineExceeded)] \<and>
      filter is_shutdown_ret (trace s') = [EvShutdownRet (Some DeadlineExceeded)])"
  using closed_sentinel_suppressed
      [of cfg_count run_shutdown 0 state_shutdown "Some ErrServerClosed"]
    closed_sentinel_suppressed [of cfg_count "[RunFuncReturns None]" 0 state_waiting None]
  by (simp add: run_shutdown_result run_waiting_result)
     (simp add: state_shutdown_def state_waiting_def cfg_count_def)

text \<open>
  C3. On a run that does not take the early return (\<^verbatim>\<open>runFunc\<close> returned \<^verbatim>\<open>nil\<close> or the closed
  sentinel): the after-shutdown hook is never invoked twice; once \<^verbatim>\<open>start\<close> has returned
  \<open>v\<close>, the hook was invoked exactly once, with \<open>v\<close>, the value \<^verbatim>\<open>srv.Shutdown\<close> returned,
  after \<^verbatim>\<open>srv.Shutdown\<close> returned and before \<^verbatim>\<open>start\<close> returned \<open>v\<close>, and the world is the one
  left by the before hook and then the after hook; once \<^verbatim>\<open>srv.Shutdown\<close> has returned
  \<open>v\<close> and the hook is not \<^verbatim>\<open>nil\<close>, \<^verbatim>\<open>start\<close> does go on to return \<open>v\<close>; and with hooks
  that are not \<^verbatim>\<open>nil\<close>, from every state of such a run and for every value \<open>v\<close> that
  \<^verbatim>\<open>srv.Shutdown\<close> may return (the value it has returned, if it has), the run continues
  through the call of line 85 to a state in which the hook was invoked exactly once, with
  \<open>v\<close>, and \<^verbatim>\<open>start\<close> has returned \<open>v\<close>.
\<close>

theorem after_shutdown_exactly_once:
  assumes "run cfg ls w = Some s"
    and "EvRunFunc r \<in> set (trace s)"
    and "\<not> run_failed r"
  shows "length (filter is_after (trace s)) \<le> 1 \<and>
         (\<forall>v. mpc s = M_returned v \<longrightarrow>
            filter shutdown_ret_or_after (trace s) = [EvShutdownRet v, EvAfter v] \<and>
            filter after_or_return (trace s) = [EvAfter v, EvReturn v] \<and>
            afterShutdown cfg \<noteq> None \<and>
            world s = apply_hook (afterShutdown cfg) v
                        (apply_hook (beforeShutdown cfg) (shutdownTimeout cfg) w)) \<and>
         (\<forall>v. EvShutdownRet v \<in> set (trace s) \<and> afterShutdown cfg \<noteq> None \<longrightarrow>
            (\<exists>ls' s'. steps cfg ls' s = Some s' \<and> mpc s' = M_returned v)) \<and>
         (beforeShutdown cfg \<noteq> None \<and> afterShutdown cfg \<noteq> None \<longrightarrow>
            (\<forall>v. filter is_shutdown_ret (trace s) = [] \<or> EvShutdownRet v \<in> set (trace s) \<longrightarrow>
               (\<exists>ls' s'. steps cfg ls' s = Some s' \<and> mpc s' = M_returned v \<and>
                  filter shutdown_ret_or_after (trace s') = [EvShutdownRet v, EvAfter v] \<and>
                  filter after_or_return (trace s') = [EvAfter v, EvReturn v] \<and>
                  world s' = apply_hook (afterShutdown cfg) v
                               (apply_hook (beforeShutdown cfg) (shutdownTimeout cfg) w))))"
proof -
  from assms(1) have I: "start_inv cfg w s" by (rule inv_run)
  note rm = runfunc_in_main [OF assms(2)]
  have a: "filter is_after (trace s) = filter is_after (filter is_main (trace s))"
    by (rule main_sub) (simp add: is_main_def)
  have ar: "filter after_or_return (trace s) = filter after_or_return (filter is_main (trace s))"
    by (rule main_sub) (auto simp: is_main_def after_or_return_def)
  have sa: "filter shutdown_ret_or_after (trace s) = filter shutdown_ret_or_after
       (chain_of (shutdownTimeout cfg) (timeout s) (ctx_done s) (wpc s) (mpc s))"
    using I by (rule inv_chain) (auto simp: is_chain_def shutdown_ret_or_after_def)
  from I have wo: "world_ok cfg w s" and po: "panic_ok cfg s" by (simp_all add: start_inv_def)
  have 1: "length (filter is_after (trace s)) \<le> 1"
    using I by (cases rule: main_cases) (simp_all add: a)
  have 2: "filter shutdown_ret_or_after (trace s) = [EvShutdownRet v, EvAfter v] \<and>
            filter after_or_return (trace s) = [EvAfter v, EvReturn v] \<and>
            afterShutdown cfg \<noteq> None \<and>
            world s = apply_hook (afterShutdown cfg) v
                        (apply_hook (beforeShutdown cfg) (shutdownTimeout cfg) w)"
    if "mpc s = M_returned v" for v
    using I
  proof (cases rule: main_cases)
    case (finished r' v')
    with that wo po show ?thesis
      by (simp add: ar sa world_ok_def panic_ok_def shutdown_ret_or_after_def after_or_return_def)
  next
    case (failed v')
    with rm assms(3) show ?thesis by auto
  qed (use that in simp_all)
  have 3: "\<exists>ls' s'. steps cfg ls' s = Some s' \<and> mpc s' = M_returned v"
    if "EvShutdownRet v \<in> set (trace s)" "afterShutdown cfg \<noteq> None" for v
  proof -
    from that(2) obtain f where "afterShutdown cfg = Some f" by auto
    with I assms(2,3) that(1) show ?thesis by (rule can_finish)
  qed
  have 4: "\<exists>ls' s'. steps cfg ls' s = Some s' \<and> mpc s' = M_returned v \<and>
                  filter shutdown_ret_or_after (trace s') = [EvShutdownRet v, EvAfter v] \<and>
                  filter after_or_return (trace s') = [EvAfter v, EvReturn v] \<and>
                  world s' = apply_hook (afterShutdown cfg) v
                               (apply_hook (beforeShutdown cfg) (shutdownTimeout cfg) w)"
    if h: "beforeShutdown cfg \<noteq> None" "afterShutdown cfg \<noteq> None"
      and ns: "filter is_shutdown_ret (trace s) = [] \<or> EvShutdownRet v \<in> set (trace s)" for v
  proof -
    from h obtain fb fa where "beforeShutdown cfg = Some fb" "afterShutdown cfg = Some fa"
      by auto
    from can_return [OF I assms(2,3) this ns]
    obtain ls' s' where st: "steps cfg ls' s = Some s'" and m: "mpc s' = M_returned v"
      and x: "wpc s' = W_exit" by blast
    from I st have I': "start_inv cfg w s'" by (rule inv_steps)
    from I' m x have "world s' = apply_hook (afterShutdown cfg) v
                               (apply_hook (beforeShutdown cfg) (shutdownTimeout cfg) w)"
      by (simp add: start_inv_def world_ok_def)
    with finished_views(4,5) [OF I' m x] st m show ?thesis by blast
  qed
  from 1 2 3 4 show ?thesis by blast
qed

theorem after_shutdown_exactly_once_witness:
  "run cfg_count run_shutdown 0 = Some state_shutdown \<and>
   EvRunFunc (Some ErrServerClosed) \<in> set (trace state_shutdown) \<and>
   \<not> run_failed (Some ErrServerClosed) \<and>
   mpc state_shutdown = M_returned None \<and>
   filter shutdown_ret_or_after (trace state_shutdown) = [EvShutdownRet None, EvAfter None] \<and>
   filter after_or_return (trace state_shutdown) = [EvAfter None, EvReturn None] \<and>
   world state_shutdown = 11 \<and>
   run cfg_count run_to_send 0 = Some state_sent \<and>
   EvRunFunc (Some ErrServerClosed) \<in> set (trace state_sent) \<and>
   EvShutdownRet None \<in> set (trace state_sent) \<and>
   afterShutdown cfg_count \<noteq> None \<and>
   (\<exists>ls' s'. steps cfg_count ls' state_sent = Some s' \<and> mpc s' = M_returned None) \<and>
   run cfg_count [RunFuncReturns None] 0 = Some state_waiting \<and>
   EvRunFunc None \<in> set (trace state_waiting) \<and> \<not> run_failed None \<and>
   beforeShutdown cfg_count \<noteq> None \<and>
   filter is_shutdown_ret (trace state_waiting) = [] \<and>
   (\<exists>ls' s'. steps cfg_count ls' state_waiting = Some s' \<and>
      mpc s' = M_returned (Some DeadlineExceeded) \<and>
      filter shutdown_ret_or_after (trace s') =
        [EvShutdownRet (Some DeadlineExceeded), EvAfter (Some DeadlineExceeded)] \<and>
      filter after_or_return (trace s') =
        [EvAfter (Some DeadlineExceeded), EvReturn (Some DeadlineExceeded)] \<and>
      world s' = 11)"
  using after_shutdown_exactly_once
    [of cfg_count run_shutdown 0 state_shutdown "Some ErrServerClosed"]
    after_shutdown_exactly_once [of cfg_count run_to_send 0 state_sent "Some ErrServerClosed"]
    after_shutdown_exactly_once [of cfg_count "[RunFuncReturns None]" 0 state_waiting None]
  by (simp add: run_shutdown_result run_to_send_result run_waiting_result run_failed_def)
     (simp add: state_shutdown_def state_sent_def state_waiting_def cfg_count_def apply_hook_def)

text \<open>
  C4, as stated, fails: on the early return of line 89 \<^verbatim>\<open>start\<close> has returned and the
  after-shutdown hook was invoked zero times.
\<close>

theorem after_hook_every_run_counterexample:
  "map_option mpc (run cfg_count run_early 0) = Some (M_returned (Some bind_failure)) \<and>
   map_option after_calls (run cfg_count run_early 0) = Some 0"
  by (simp add: run_early_result) (simp add: state_early_def after_calls_def)

text \<open>
  C4, amended. Once \<^verbatim>\<open>start\<close> has returned: the after-shutdown hook was invoked exactly once
  if \<^verbatim>\<open>runFunc\<close> returned \<^verbatim>\<open>nil\<close> or the closed sentinel, and not at all on the early
  return; whenever it is invoked, its argument is the one value \<^verbatim>\<open>srv.Shutdown\<close> returned,
  so \<^verbatim>\<open>nil\<close> when the shutdown succeeded.
\<close>

theorem after_hook_per_path:
  assumes "run cfg ls w = Some s"
    and "mpc s = M_returned v"
    and "EvRunFunc r \<in> set (trace s)"
  shows "after_calls s = (if run_failed r then 0 else 1) \<and>
         filter is_after (trace s) = (if run_failed r then [] else [EvAfter v]) \<and>
         (\<forall>e. EvAfter e \<in> set (trace s) \<longrightarrow>
            filter is_shutdown_ret (trace s) = [EvShutdownRet e])"
proof -
  from assms(1) have I: "start_inv cfg w s" by (rule inv_run)
  note rm = runfunc_in_main [OF assms(3)]
  have a: "filter is_after (trace s) = filter is_after (filter is_main (trace s))"
    by (rule main_sub) (simp add: is_main_def)
  have mem: "EvAfter e \<in> set (filter is_after (trace s))" if "EvAfter e \<in> set (trace s)" for e
    using that by simp
  note sr = shutdown_ret_chain [OF I]
  from I show ?thesis
  proof (cases rule: main_cases)
    case (finished r' v')
    with assms(2) rm mem show ?thesis
      by (auto simp: after_calls_def a sr)
  next
    case (failed v')
    with assms(2) rm mem show ?thesis
      by (auto simp: after_calls_def a)
  qed (use assms(2) in simp_all)
qed

theorem after_hook_per_path_witness:
  "run cfg_count run_shutdown 0 = Some state_shutdown \<and>
   mpc state_shutdown = M_returned None \<and>
   EvRunFunc (Some ErrServerClosed) \<in> set (trace state_shutdown) \<and>
   \<not> run_failed (Some ErrServerClosed) \<and>
   after_calls state_shutdown = 1 \<and>
   filter is_after (trace state_shutdown) = [EvAfter None] \<and>
   filter is_shutdown_ret (trace state_shutdown) = [EvShutdownRet None]"
  using after_hook_per_path [of cfg_count run_shutdown 0 state_shutdown None "Some ErrServerClosed"]
  by (simp add: run_shutdown_result run_failed_def) (simp add: state_shutdown_def)

text \<open>
  C5. In every run the before-shutdown hook is invoked at most once and only with the
  configured \<^verbatim>\<open>shutdownTimeout\<close>; when \<^verbatim>\<open>srv.Shutdown\<close> is called, the hook was invoked
  exactly once, before the call; and once the context is cancelled, a watcher that has not
  invoked a non-nil hook yet goes on to invoke it.
\<close>

theorem before_hook_once:
  assumes "run cfg ls w = Some s"
  shows "(filter is_before (trace s) = [] \<or>
          filter is_before (trace s) = [EvBefore (shutdownTimeout cfg)]) \<and>
         (\<forall>c. EvShutdown c \<in> set (trace s) \<longrightarrow>
            filter before_or_shutdown (trace s) = [EvBefore (shutdownTimeout cfg), EvShutdown c]) \<and>
         (EvCancel \<in> set (trace s) \<and> filter is_before (trace s) = [] \<and>
          beforeShutdown cfg \<noteq> None \<longrightarrow>
            (\<exists>ls' s'. steps cfg ls' s = Some s' \<and>
               filter is_before (trace s') = [EvBefore (shutdownTimeout cfg)]))"
proof -
  from assms have I: "start_inv cfg w s" by (rule inv_run)
  have fb: "filter is_before (trace s) = filter is_before
      (chain_of (shutdownTimeout cfg) (timeout s) (ctx_done s) (wpc s) (mpc s))"
    using I by (rule watcher_sub) (simp add: is_chain_def)
  have fs: "filter is_shutdown (trace s) = filter is_shutdown
      (chain_of (shutdownTimeout cfg) (timeout s) (ctx_done s) (wpc s) (mpc s))"
    using I by (rule watcher_sub) (simp add: is_chain_def)
  have fbs: "filter before_or_shutdown (trace s) = filter before_or_shutdown
      (chain_of (shutdownTimeout cfg) (timeout s) (ctx_done s) (wpc s) (mpc s))"
    using I by (rule watcher_sub) (auto simp: is_chain_def before_or_shutdown_def)
  have 1: "filter is_before (trace s) = [] \<or>
          filter is_before (trace s) = [EvBefore (shutdownTimeout cfg)]"
    unfolding fb by (cases "wpc s"; cases "mpc s") simp_all
  have 2: "filter before_or_shutdown (trace s) = [EvBefore (shutdownTimeout cfg), EvShutdown c]"
    if "EvShutdown c \<in> set (trace s)" for c
  proof -
    from that have "EvShutdown c \<in> set (filter is_shutdown (trace s))" by simp
    then show ?thesis unfolding fs fbs
      by (cases "wpc s"; cases "mpc s") (auto simp: before_or_shutdown_def split: if_splits)
  qed
  have 3: "\<exists>ls' s'. steps cfg ls' s = Some s' \<and>
               filter is_before (trace s') = [EvBefore (shutdownTimeout cfg)]"
    if "EvCancel \<in> set (trace s)" "filter is_before (trace s) = []" "beforeShutdown cfg \<noteq> None"
  proof -
    from that(3) obtain f where "beforeShutdown cfg = Some f" by auto
    with I that(1,2) show ?thesis by (rule can_call_before)
  qed
  from 1 2 3 show ?thesis by blast
qed

theorem before_hook_once_witness:
  "run cfg_count [Cancel] 0 = Some state_cancelled \<and>
   EvCancel \<in> set (trace state_cancelled) \<and>
   filter is_before (trace state_cancelled) = [] \<and>
   beforeShutdown cfg_count \<noteq> None \<and>
   (\<exists>ls' s'. steps cfg_count ls' state_cancelled = Some s' \<and>
      filter is_before (trace s') = [EvBefore (shutdownTimeout cfg_count)]) \<and>
   run cfg_count run_to_shutdown 0 = Some state_to_shutdown \<and>
   EvShutdown (WithDeadline 5000000100) \<in> set (trace state_to_shutdown) \<and>
   filter is_before (trace state_to_shutdown) = [EvBefore (shutdownTimeout cfg_count)] \<and>
   filter before_or_shutdown (trace state_to_shutdown) =
     [EvBefore (shutdownTimeout cfg_count), EvShutdown (WithDeadline 5000000100)]"
  using before_hook_once [of cfg_count run_to_shutdown 0 state_to_shutdown]
    before_hook_once [of cfg_count "[Cancel]" 0 state_cancelled]
  by (simp add: run_to_shutdown_result run_cancelled_result)
     (simp add: state_to_shutdown_def state_cancelled_def before_or_shutdown_def cfg_count_def)

text \<open>
  C6, as stated, fails for a negative \<^verbatim>\<open>shutdownTimeout\<close>: it is not zero, and
  \<^verbatim>\<open>srv.Shutdown\<close> gets the background context, not the deadline now + \<^verbatim>\<open>shutdownTimeout\<close>.
\<close>

theorem shutdown_context_nonzero_counterexample:
  "shutdownTimeout cfg_negative \<noteq> 0 \<and>
   map_option shutdown_calls (run cfg_negative run_to_shutdown 0) = Some [EvShutdown Background] \<and>
   Background \<noteq> WithTimeout 100 (shutdownTimeout cfg_negative)"
  by (simp add: run_negative_result)
     (simp add: state_negative_def shutdown_calls_def cfg_negative_def WithTimeout_def)

text \<open>
  C6, amended. The context passed to \<^verbatim>\<open>srv.Shutdown\<close> is the background context when
  \<^verbatim>\<open>shutdownTimeout\<close> is zero or negative, and the clock is not read; when it is strictly
  positive the context has the deadline now + \<^verbatim>\<open>shutdownTimeout\<close>, for the one clock reading,
  which is taken after the cancellation and before the before hook and the call.
\<close>

theorem shutdown_context_by_sign:
  assumes "run cfg ls w = Some s"
    and "EvShutdown c \<in> set (trace s)"
  shows "(sint (shutdownTimeout cfg) \<le> 0 \<longrightarrow>
            c = Background \<and> filter is_now (trace s) = [] \<and>
            filter watcher_lead (trace s) =
              [EvCancel, EvBefore (shutdownTimeout cfg), EvShutdown c]) \<and>
         (0 < sint (shutdownTimeout cfg) \<longrightarrow>
            (\<exists>now. filter is_now (trace s) = [EvNow now] \<and>
                   c = WithDeadline (now + sint (shutdownTimeout cfg)) \<and>
                   filter watcher_lead (trace s) =
                     [EvCancel, EvNow now, EvBefore (shutdownTimeout cfg), EvShutdown c]))"
proof -
  from assms(1) have I: "start_inv cfg w s" by (rule inv_run)
  from assms(1) have "order_ok s" by (rule order_run)
  then have o: "filter watcher_lead (trace s) =
        filter is_cancel (trace s) @ filter is_now (trace s) @ filter is_before (trace s) @
        filter is_shutdown (trace s)" by (simp add: order_ok_def)
  from shutdown_arg [OF I assms(2)] have c: "c = timeout s" and p: "past_timeout (wpc s)"
    by simp_all
  have fc: "filter is_cancel (trace s) = filter is_cancel
      (chain_of (shutdownTimeout cfg) (timeout s) (ctx_done s) (wpc s) (mpc s))"
    using I by (rule watcher_sub) (simp add: is_chain_def)
  have fb: "filter is_before (trace s) = filter is_before
      (chain_of (shutdownTimeout cfg) (timeout s) (ctx_done s) (wpc s) (mpc s))"
    using I by (rule watcher_sub) (simp add: is_chain_def)
  have fs: "filter is_shutdown (trace s) = filter is_shutdown
      (chain_of (shutdownTimeout cfg) (timeout s) (ctx_done s) (wpc s) (mpc s))"
    using I by (rule watcher_sub) (simp add: is_chain_def)
  from assms(2) have "EvShutdown c \<in> set (filter is_shutdown (trace s))" by simp
  then have parts: "filter is_cancel (trace s) = [EvCancel]"
    "filter is_before (trace s) = [EvBefore (shutdownTimeout cfg)]"
    "filter is_shutdown (trace s) = [EvShutdown c]"
    unfolding fc fb fs by (cases "wpc s"; cases "mpc s"; auto split: if_splits)+
  from I p obtain now where "timeout s = shutdown_context cfg now"
    and "filter is_now (trace s) = (if 0 <s shutdownTimeout cfg then [EvNow now] else [])"
    by (auto simp: start_inv_def now_ok_def)
  with c o parts show ?thesis
    by (auto simp: shutdown_context_def WithTimeout_def word_sless_alt)
qed

theorem shutdown_context_by_sign_witness:
  "run cfg_count run_to_shutdown 0 = Some state_to_shutdown \<and>
   EvShutdown (WithDeadline 5000000100) \<in> set (trace state_to_shutdown) \<and>
   0 < sint (shutdownTimeout cfg_count) \<and>
   (\<exists>now. filter is_now (trace state_to_shutdown) = [EvNow now] \<and>
      WithDeadline 5000000100 = WithDeadline (now + sint (shutdownTimeout cfg_count)) \<and>
      filter watcher_lead (trace state_to_shutdown) =
        [EvCancel, EvNow now, EvBefore (shutdownTimeout cfg_count),
         EvShutdown (WithDeadline 5000000100)]) \<and>
   run cfg_negative run_to_shutdown 0 = Some state_negative \<and>
   EvShutdown Background \<in> set (trace state_negative) \<and>
   sint (shutdownTimeout cfg_negative) \<le> 0 \<and>
   filter is_now (trace state_negative) = [] \<and>
   filter watcher_lead (trace state_negative) =
     [EvCancel, EvBefore (shutdownTimeout cfg_negative), EvShutdown Background]"
  using shutdown_context_by_sign
      [of cfg_count run_to_shutdown 0 state_to_shutdown "WithDeadline 5000000100"]
    shutdown_context_by_sign [of cfg_negative run_to_shutdown 0 state_negative Background]
  by (simp add: run_to_shutdown_result run_negative_result)
     (simp add: state_to_shutdown_def state_negative_def cfg_count_def cfg_negative_def Second_def)

text \<open>
  C7. In every run \<^verbatim>\<open>srv.Shutdown\<close> is called at most once, and only after the context was
  cancelled; once it has been called, the call is never enabled again, whatever it returns.
\<close>

theorem shutdown_at_most_once:
  assumes "run cfg ls w = Some s"
  shows "(filter cancel_or_shutdown (trace s) = [] \<or>
          filter cancel_or_shutdown (trace s) = [EvCancel] \<or>
          filter cancel_or_shutdown (trace s) = [EvCancel, EvShutdown (timeout s)]) \<and>
         (\<forall>c. EvShutdown c \<in> set (trace s) \<longrightarrow> step cfg CallShutdown s = None)"
proof -
  from assms have I: "start_inv cfg w s" by (rule inv_run)
  have fs: "filter is_shutdown (trace s) = filter is_shutdown
      (chain_of (shutdownTimeout cfg) (timeout s) (ctx_done s) (wpc s) (mpc s))"
    using I by (rule watcher_sub) (simp add: is_chain_def)
  have fcs: "filter cancel_or_shutdown (trace s) = filter cancel_or_shutdown
      (chain_of (shutdownTimeout cfg) (timeout s) (ctx_done s) (wpc s) (mpc s))"
    using I by (rule watcher_sub) (auto simp: is_chain_def cancel_or_shutdown_def)
  from I have pc: "main_pcs (mpc s) (wpc s = W_exit)" by (simp add: start_inv_def pcs_ok_def)
  have 1: "filter cancel_or_shutdown (trace s) = [] \<or>
          filter cancel_or_shutdown (trace s) = [EvCancel] \<or>
          filter cancel_or_shutdown (trace s) = [EvCancel, EvShutdown (timeout s)]"
    unfolding fcs using pc
    by (cases "wpc s"; cases "mpc s") (simp_all add: cancel_or_shutdown_def)
  have 2: "step cfg CallShutdown s = None" if "EvShutdown c \<in> set (trace s)" for c
  proof -
    from that have "EvShutdown c \<in> set (filter is_shutdown (trace s))" by simp
    then have "wpc s \<noteq> W_Shutdown" unfolding fs by auto
    then show ?thesis by simp
  qed
  from 1 2 show ?thesis by blast
qed

theorem shutdown_at_most_once_witness:
  "run cfg_count run_shutdown 0 = Some state_shutdown \<and>
   EvShutdown (WithDeadline 5000000100) \<in> set (trace state_shutdown) \<and>
   filter cancel_or_shutdown (trace state_shutdown) = [EvCancel, EvShutdown (timeout state_shutdown)] \<and>
   step cfg_count CallShutdown state_shutdown = None"
  using shutdown_at_most_once [of cfg_count run_shutdown 0 state_shutdown]
  by (simp add: run_shutdown_result) (simp add: state_shutdown_def cancel_or_shutdown_def)

text \<open>
  C8. \<^verbatim>\<open>newConfig\<close> of no options gives a timeout of 30 seconds and two hooks that are not
  \<^verbatim>\<open>nil\<close> and leave the world as it is, so no run of \<^verbatim>\<open>start\<close> with that configuration
  panics, and every run leaves the world untouched.
\<close>

theorem newConfig_defaults:
  assumes "newConfig [] = Some cfg"
    and "run cfg ls w = Some s"
  shows "shutdownTimeout cfg = 30 * Second \<and> sint (shutdownTimeout cfg) = 30 * 1000000000 \<and>
         (\<exists>f. beforeShutdown cfg = Some f \<and> (\<forall>d x. f d x = x)) \<and>
         (\<exists>g. afterShutdown cfg = Some g \<and> (\<forall>err x. g err x = x)) \<and>
         \<not> panicked s \<and> EvPanic \<notin> set (trace s) \<and> world s = w"
proof -
  from assms(1) have cfg: "cfg = default_config" by (simp add: newConfig_def)
  from assms(2) have I: "start_inv cfg w s" by (rule inv_run)
  have h: "beforeShutdown cfg = Some (\<lambda>d x. x)" "afterShutdown cfg = Some (\<lambda>err x. x)"
    by (simp_all add: cfg default_config_def)
  have t: "shutdownTimeout cfg = 30 * Second" "sint (shutdownTimeout cfg) = 30 * 1000000000"
    by (simp_all add: cfg default_config_def Second_def)
  from I h have np: "\<not> panicked s" by (auto simp: start_inv_def panic_ok_def)
  with I have "filter is_panic (trace s) = []" by (simp add: start_inv_def panic_ok_def)
  then have ne: "EvPanic \<notin> set (trace s)" by (auto simp: filter_empty_conv)
  from I h have "world s = w"
    by (cases "mpc s"; cases "wpc s = W_exit") (simp_all add: start_inv_def world_ok_def apply_hook_def)
  with h t np ne show ?thesis by simp
qed

theorem newConfig_defaults_witness:
  "newConfig [] = Some (default_config :: nat config) \<and>
   run default_config run_shutdown 0 = Some state_default \<and>
   sint (shutdownTimeout (default_config :: nat config)) = 30000000000 \<and>
   \<not> panicked state_default \<and> world state_default = 0"
  using newConfig_defaults [of "default_config :: nat config" run_shutdown 0 state_default]
  by (simp add: run_default_result newConfig_def)
     (simp add: default_config_def Second_def state_default_def)

text \<open>
  C9. With a strictly negative \<^verbatim>\<open>shutdownTimeout\<close>, \<^verbatim>\<open>srv.Shutdown\<close> is called with the
  background context; it is called with a deadline exactly when \<^verbatim>\<open>shutdownTimeout\<close> is
  strictly positive.
\<close>

theorem negative_timeout_unbounded:
  assumes "run cfg ls w = Some s"
    and "EvShutdown c \<in> set (trace s)"
  shows "(sint (shutdownTimeout cfg) < 0 \<longrightarrow> c = Background) \<and>
         ((\<exists>t. c = WithDeadline t) \<longleftrightarrow> 0 < sint (shutdownTimeout cfg))"
proof -
  from assms(1) have I: "start_inv cfg w s" by (rule inv_run)
  from shutdown_arg [OF I assms(2)] have c: "c = timeout s" and p: "past_timeout (wpc s)"
    by simp_all
  from I p obtain now where "timeout s = shutdown_context cfg now"
    by (auto simp: start_inv_def now_ok_def)
  with c show ?thesis
    by (auto simp: shutdown_context_def WithTimeout_def word_sless_alt)
qed

theorem negative_timeout_unbounded_witness:
  "run cfg_negative run_to_shutdown 0 = Some state_negative \<and>
   EvShutdown Background \<in> set (trace state_negative) \<and>
   sint (shutdownTimeout cfg_negative) < 0 \<and>
   (\<forall>t. Background \<noteq> WithDeadline t)"
  using negative_timeout_unbounded [of cfg_negative run_to_shutdown 0 state_negative Background]
  by (simp add: run_negative_result) (simp add: state_negative_def cfg_negative_def)

text \<open>
  C10. A \<^verbatim>\<open>nil\<close> function given to \<^verbatim>\<open>BeforeShutdown\<close> or \<^verbatim>\<open>AfterShutdown\<close> as the last option
  replaces the default, so the configuration holds a \<^verbatim>\<open>nil\<close> hook; every run that then
  reaches the hook's call (line 84, line 93) panics there: \<^verbatim>\<open>srv.Shutdown\<close> is never called
  with a \<^verbatim>\<open>nil\<close> before hook, and \<^verbatim>\<open>start\<close> never returns with a \<^verbatim>\<open>nil\<close> after hook.
\<close>

theorem nil_hook_panics:
  "(newConfig (opts @ [BeforeShutdown None]) = Some cb \<and>
    run cb (ls @ [CallBefore]) w = Some s \<longrightarrow>
      beforeShutdown cb = None \<and> panicked s \<and> last (trace s) = EvPanic \<and>
      filter is_shutdown (trace s) = []) \<and>
   (newConfig (opts' @ [AfterShutdown None]) = Some ca \<and>
    run ca (ls' @ [CallAfter]) w' = Some s' \<longrightarrow>
      afterShutdown ca = None \<and> panicked s' \<and> last (trace s') = EvPanic \<and>
      filter is_return (trace s') = [])"
proof (rule conjI; rule impI; elim conjE)
  assume c: "newConfig (opts @ [BeforeShutdown None]) = Some cb"
    and r: "run cb (ls @ [CallBefore]) w = Some s"
  from c have h: "beforeShutdown cb = None"
    by (auto simp: newConfig_def apply_opts_append BeforeShutdown_def split: option.splits)
  from r obtain s1 where I: "start_inv cb w s1" and st: "step cb CallBefore s1 = Some s"
    by (rule run_snoc)
  from st have en: "\<not> panicked s1" "wpc s1 = W_beforeShutdown" by (simp_all split: if_splits)
  with st h have s: "s = panic s1" by simp
  have "filter is_shutdown (trace s1) = filter is_shutdown
      (chain_of (shutdownTimeout cb) (timeout s1) (ctx_done s1) (wpc s1) (mpc s1))"
    using I by (rule watcher_sub) (simp add: is_chain_def)
  with en have "filter is_shutdown (trace s1) = []" by simp
  with h show "beforeShutdown cb = None \<and> panicked s \<and> last (trace s) = EvPanic \<and>
      filter is_shutdown (trace s) = []"
    by (simp add: s panic_def emit_def)
next
  assume c: "newConfig (opts' @ [AfterShutdown None]) = Some ca"
    and r: "run ca (ls' @ [CallAfter]) w' = Some s'"
  from c have h: "afterShutdown ca = None"
    by (auto simp: newConfig_def apply_opts_append AfterShutdown_def split: option.splits)
  from r obtain s1 where I: "start_inv ca w' s1" and st: "step ca CallAfter s1 = Some s'"
    by (rule run_snoc)
  from st have np: "\<not> panicked s1" by (simp split: if_splits)
  with st obtain e where m: "mpc s1 = M_afterShutdown e" by (cases "mpc s1") simp_all
  with st h np have s: "s' = panic s1" by simp
  have fr: "filter is_return (trace s1) = filter is_return (filter is_main (trace s1))"
    by (rule main_sub) (simp add: is_main_def)
  from I m have "filter is_return (trace s1) = []"
    by (cases rule: main_cases) (simp_all add: fr)
  with h show "afterShutdown ca = None \<and> panicked s' \<and> last (trace s') = EvPanic \<and>
      filter is_return (trace s') = []"
    by (simp add: s panic_def emit_def)
qed

theorem nil_hook_panics_witness:
  "newConfig ([] @ [BeforeShutdown None]) = Some cfg_nil_before \<and>
   run cfg_nil_before (run_to_before @ [CallBefore]) 0 = Some state_nil_before \<and>
   beforeShutdown cfg_nil_before = None \<and> panicked state_nil_before \<and>
   filter is_shutdown (trace state_nil_before) = [] \<and>
   newConfig ([] @ [AfterShutdown None]) = Some cfg_nil_after \<and>
   run cfg_nil_after (run_to_after @ [CallAfter]) 0 = Some state_nil_after \<and>
   afterShutdown cfg_nil_after = None \<and> panicked state_nil_after \<and>
   filter is_return (trace state_nil_after) = []"
  using nil_hook_panics [of "[]" cfg_nil_before run_to_before 0 state_nil_before
      "[]" cfg_nil_after run_to_after 0 state_nil_after]
  by (simp add: run_nil_before_result run_nil_after_result newConfig_nil_before
      newConfig_nil_after)

end
